theory Spec2Isabelle
  imports Complex_Main "HOL-Library.Log_Nat"
begin

section \<open>Python numbers\<close>

text \<open>
  The fan platform computes with Python \<open>int\<close> (unbounded; HOL \<open>int\<close>) and Python
  \<open>float\<close> (IEEE 754 binary64).  A finite double is a rational number, so a float value
  is modelled as a \<open>rat\<close> that is representable, and every float operation rounds
  its exact result to the nearest representable value, ties to even (\<open>fl\<close>).
  The exponent range is the one of binary64: below \<open>2^-1022\<close> the spacing stays
  \<open>2^-1074\<close> (subnormal numbers), and a rounded result of magnitude \<open>2^1024\<close> or more
  is an overflow.
\<close>

datatype error = ZeroDivisionError | OverflowError

definition bind :: "error + 'a \<Rightarrow> ('a \<Rightarrow> error + 'b) \<Rightarrow> error + 'b" where
  "bind m f = (case m of Inl e \<Rightarrow> Inl e | Inr v \<Rightarrow> f v)"

text \<open>\<open>round(x)\<close> of a float: the nearest integer, a tie going to the even one.\<close>

definition py_round :: "rat \<Rightarrow> int" where
  "py_round x =
     (let f = \<lfloor>x\<rfloor>; d = x - of_int f
      in if d < 1 / 2 then f
         else if 1 / 2 < d then f + 1
         else if even f then f else f + 1)"

text \<open>\<open>int(x)\<close> of a float: truncation towards zero.\<close>

definition py_int :: "rat \<Rightarrow> int" where
  "py_int x = (if 0 \<le> x then \<lfloor>x\<rfloor> else \<lceil>x\<rceil>)"

text \<open>The binary exponent of a positive rational: \<open>2^e \<le> x < 2^(e+1)\<close>.\<close>

definition ilog2 :: "rat \<Rightarrow> int" where
  "ilog2 x =
     (let d = bitlen (fst (quotient_of x)) - bitlen (snd (quotient_of x))
      in if 2 powi d \<le> x then d else d - 1)"

text \<open>Rounding to binary64: 53 significant bits, least exponent \<open>-1022\<close>.\<close>

definition fl :: "rat \<Rightarrow> rat" where
  "fl x =
     (if x = 0 then 0
      else let q = 2 powi (max (ilog2 \<bar>x\<bar>) (- 1022) - 52)
           in of_int (py_round (x / q)) * q)"

text \<open>The spacing of the doubles around \<open>x\<close>: \<open>fl x\<close> is a multiple of it.\<close>

definition quantum :: "rat \<Rightarrow> rat" where
  "quantum x = 2 powi (max (ilog2 \<bar>x\<bar>) (- 1022) - 52)"

text \<open>
  A result beyond the largest double.  Python raises \<open>OverflowError\<close> when an \<open>int\<close> is
  too large to convert and when an \<open>int / int\<close> quotient is too large.  A float product
  or quotient that overflows is the value \<open>inf\<close>; in this program each such result is
  the operand of \<open>round\<close> or \<open>int\<close> in the same expression, which raise \<open>OverflowError\<close>
  on \<open>inf\<close>, so the model raises it where the infinity appears.
\<close>

definition finite_or_raise :: "rat \<Rightarrow> error + rat" where
  "finite_or_raise y = (if 2 ^ 1024 \<le> \<bar>y\<bar> then Inl OverflowError else Inr y)"

text \<open>\<open>float(n)\<close>, the implicit conversion of an \<open>int\<close> operand in mixed arithmetic.\<close>

definition int_to_float :: "int \<Rightarrow> error + rat" where
  "int_to_float n = finite_or_raise (fl (of_int n))"

text \<open>\<open>a / b\<close> on two \<open>int\<close>s: the correctly rounded quotient.\<close>

definition int_truediv :: "int \<Rightarrow> int \<Rightarrow> error + rat" where
  "int_truediv a b =
     (if b = 0 then Inl ZeroDivisionError
      else finite_or_raise (fl (of_int a / of_int b)))"

text \<open>\<open>x / y\<close> and \<open>x * y\<close> on two floats.\<close>

definition float_truediv :: "rat \<Rightarrow> rat \<Rightarrow> error + rat" where
  "float_truediv x y =
     (if y = 0 then Inl ZeroDivisionError else finite_or_raise (fl (x / y)))"

definition float_mul :: "rat \<Rightarrow> rat \<Rightarrow> error + rat" where
  "float_mul x y = finite_or_raise (fl (x * y))"

text \<open>Mixed operands: the \<open>int\<close> is converted first.\<close>

definition int_div_float :: "int \<Rightarrow> rat \<Rightarrow> error + rat" where
  "int_div_float n y = bind (int_to_float n) (\<lambda>x. float_truediv x y)"

definition float_mul_int :: "rat \<Rightarrow> int \<Rightarrow> error + rat" where
  "float_mul_int x n = bind (int_to_float n) (\<lambda>y. float_mul x y)"

section \<open>The hub\<close>

text \<open>
  Modelled from the spec: the hub object (\<open>hass.data[DOMAIN][HUB]\<close>) is not part of
  \<open>fan.py\<close>.  Its contract is to read and write a named analog value and a named digital
  value, and to report availability.  The state keeps the value of every join and, in
  \<open>written\<close>, the write calls it has received, oldest first.
\<close>

datatype hub_call = Set_analog int int | Set_digital int bool

record hub =
  analog :: "int \<Rightarrow> int"
  digital :: "int \<Rightarrow> bool"
  available :: bool
  written :: "hub_call list"

definition get_analog :: "hub \<Rightarrow> int \<Rightarrow> int" where
  "get_analog h j = analog h j"

definition set_analog :: "hub \<Rightarrow> int \<Rightarrow> int \<Rightarrow> hub" where
  "set_analog h j v =
     h\<lparr>analog := (analog h)(j := v), written := written h @ [Set_analog j v]\<rparr>"

definition get_digital :: "hub \<Rightarrow> int \<Rightarrow> bool" where
  "get_digital h j = digital h j"

definition set_digital :: "hub \<Rightarrow> int \<Rightarrow> bool \<Rightarrow> hub" where
  "set_digital h j b =
     h\<lparr>digital := (digital h)(j := b), written := written h @ [Set_digital j b]\<rparr>"

definition is_available :: "hub \<Rightarrow> bool" where
  "is_available h = available h"

section \<open>CrestronFan\<close>

text \<open>
  The attributes \<open>__init__\<close> reads from the configuration.  No method assigns to them
  afterwards, and the entity has no other attribute of its own besides the hub handle.
\<close>

record config =
  conf_name :: string
  speed_join :: int
  speed_steps :: "int option"
  reverse_join :: "int option"

definition speed_count :: "config \<Rightarrow> int" where
  "speed_count cfg = (case speed_steps cfg of Some steps \<Rightarrow> steps | None \<Rightarrow> 100)"

definition supports_direction :: "config \<Rightarrow> bool" where
  "supports_direction cfg = (reverse_join cfg \<noteq> None)"

text \<open>
  The expression \<open>int((step / self._speed_steps) * 100)\<close>.  It ends the stepped
  branch of \<open>percentage\<close>, and \<open>async_turn_on\<close> uses it with step 1 for its default.
\<close>

definition step_to_percentage :: "int \<Rightarrow> int \<Rightarrow> error + int" where
  "step_to_percentage steps step =
     bind (int_truediv step steps) (\<lambda>f.
     bind (float_mul_int f 100) (\<lambda>g. Inr (py_int g)))"

text \<open>The step the stepped branch of \<open>percentage\<close> finds for a nonzero raw value.\<close>

definition current_step :: "int \<Rightarrow> int \<Rightarrow> error + int" where
  "current_step steps raw_value =
     bind (int_truediv 65535 steps) (\<lambda>step_size.
     bind (int_div_float raw_value step_size) (\<lambda>r.
       Inr (min steps (max 1 (py_round r)))))"

text \<open>The two branches of the \<open>percentage\<close> property, for a nonzero raw value.\<close>

definition stepped_percentage :: "int \<Rightarrow> int \<Rightarrow> error + int" where
  "stepped_percentage steps raw_value =
     bind (current_step steps raw_value) (step_to_percentage steps)"

definition stepless_percentage :: "int \<Rightarrow> error + int" where
  "stepless_percentage raw_value =
     bind (int_truediv raw_value 65535) (\<lambda>f.
     bind (float_mul_int f 100) (\<lambda>g. Inr (max 1 (min 100 (py_int g)))))"

definition decode :: "int option \<Rightarrow> int \<Rightarrow> error + int" where
  "decode steps raw_value =
     (if raw_value = 0 then Inr 0
      else case steps of
             Some s \<Rightarrow> stepped_percentage s raw_value
           | None \<Rightarrow> stepless_percentage raw_value)"

definition percentage :: "config \<Rightarrow> hub \<Rightarrow> error + int" where
  "percentage cfg h = decode (speed_steps cfg) (get_analog h (speed_join cfg))"

definition is_on :: "config \<Rightarrow> hub \<Rightarrow> error + bool" where
  "is_on cfg h = bind (percentage cfg h) (\<lambda>p. Inr (0 < p))"

definition current_direction :: "config \<Rightarrow> hub \<Rightarrow> string option" where
  "current_direction cfg h =
     (case reverse_join cfg of
        None \<Rightarrow> None
      | Some j \<Rightarrow> Some (if get_digital h j then ''reverse'' else ''forward''))"

definition async_turn_off :: "config \<Rightarrow> hub \<Rightarrow> hub" where
  "async_turn_off cfg h = set_analog h (speed_join cfg) 0"

text \<open>The value \<open>async_set_percentage\<close> computes for a nonzero percentage.\<close>

definition target_step :: "int \<Rightarrow> int \<Rightarrow> error + int" where
  "target_step steps p =
     bind (int_truediv p 100) (\<lambda>f.
     bind (float_mul_int f steps) (\<lambda>g. Inr (max 1 (min steps (py_round g)))))"

definition analog_value :: "int option \<Rightarrow> int \<Rightarrow> error + int" where
  "analog_value steps p =
     (case steps of
        Some s \<Rightarrow>
          bind (target_step s p) (\<lambda>step.
          bind (int_truediv (step * 65535) s) (\<lambda>f. Inr (py_int f)))
      | None \<Rightarrow>
          bind (int_truediv p 100) (\<lambda>f.
          bind (float_mul_int f 65535) (\<lambda>g. Inr (py_int g))))"

definition async_set_percentage :: "config \<Rightarrow> hub \<Rightarrow> int \<Rightarrow> error + hub" where
  "async_set_percentage cfg h p =
     (if p = 0 then Inr (async_turn_off cfg h)
      else bind (analog_value (speed_steps cfg) p) (\<lambda>v.
             Inr (set_analog h (speed_join cfg) v)))"

text \<open>The percentage \<open>async_turn_on\<close> passes on: the argument, or the default.\<close>

definition turn_on_percentage :: "config \<Rightarrow> int option \<Rightarrow> error + int" where
  "turn_on_percentage cfg percentage_arg =
     (case percentage_arg of
        Some p \<Rightarrow> Inr p
      | None \<Rightarrow>
          (case speed_steps cfg of
             Some s \<Rightarrow> step_to_percentage s 1
           | None \<Rightarrow> Inr 1))"

definition async_turn_on :: "config \<Rightarrow> hub \<Rightarrow> int option \<Rightarrow> error + hub" where
  "async_turn_on cfg h percentage_arg =
     bind (turn_on_percentage cfg percentage_arg) (async_set_percentage cfg h)"

definition async_set_direction :: "config \<Rightarrow> hub \<Rightarrow> string \<Rightarrow> hub" where
  "async_set_direction cfg h direction =
     (case reverse_join cfg of
        None \<Rightarrow> h
      | Some j \<Rightarrow> set_digital h j (direction = ''reverse''))"

section \<open>Sequences of commands and hub changes\<close>

text \<open>
  What can happen to the fan between two state queries: the platform calls one of the
  four command handlers, or the control system changes a join on the hub.  A handler
  that raises has written nothing (the write is its last statement), so the hub is as
  before.
\<close>

datatype event =
    Turn_on "int option"
  | Turn_off
  | Set_percentage int
  | Set_direction string
  | Hub_analog int int
  | Hub_digital int bool

fun handle :: "config \<Rightarrow> hub \<Rightarrow> event \<Rightarrow> error + hub" where
  "handle cfg h (Turn_on p) = async_turn_on cfg h p"
| "handle cfg h Turn_off = Inr (async_turn_off cfg h)"
| "handle cfg h (Set_percentage p) = async_set_percentage cfg h p"
| "handle cfg h (Set_direction d) = Inr (async_set_direction cfg h d)"
| "handle cfg h (Hub_analog j v) = Inr (h\<lparr>analog := (analog h)(j := v)\<rparr>)"
| "handle cfg h (Hub_digital j b) = Inr (h\<lparr>digital := (digital h)(j := b)\<rparr>)"

definition apply_event :: "config \<Rightarrow> hub \<Rightarrow> event \<Rightarrow> hub" where
  "apply_event cfg h e = (case handle cfg h e of Inl _ \<Rightarrow> h | Inr h' \<Rightarrow> h')"

definition run :: "config \<Rightarrow> hub \<Rightarrow> event list \<Rightarrow> hub" where
  "run cfg h es = foldl (apply_event cfg) h es"

section \<open>The formulas of the specification\<close>

text \<open>
  The specification states the two mappings and the turn-on default as formulas with
  \<open>round\<close> throughout.  They are written here in exact rational arithmetic, with
  rounding to the nearest integer, to be compared with what the source computes.
\<close>

definition clamp :: "int \<Rightarrow> int \<Rightarrow> int \<Rightarrow> int" where
  "clamp x lo hi = max lo (min hi x)"

definition spec_encode :: "int option \<Rightarrow> int \<Rightarrow> int" where
  "spec_encode steps p =
     (if p = 0 then 0
      else case steps of
             Some s \<Rightarrow>
               py_round (of_int (clamp (py_round (of_int p / 100 * of_int s)) 1 s) * 65535
                         / of_int s)
           | None \<Rightarrow> py_round (of_int p / 100 * 65535))"

definition spec_decode :: "int option \<Rightarrow> int \<Rightarrow> int" where
  "spec_decode steps r =
     (if r = 0 then 0
      else case steps of
             Some s \<Rightarrow>
               py_round (of_int (clamp (py_round (of_int r / (65535 / of_int s))) 1 s)
                         / of_int s * 100)
           | None \<Rightarrow> clamp (py_round (of_int r / 65535 * 100)) 1 100)"

definition spec_turn_on_default :: "int option \<Rightarrow> int" where
  "spec_turn_on_default steps =
     (case steps of Some s \<Rightarrow> py_round (100 / of_int s) | None \<Rightarrow> 1)"

section \<open>Rounding to a double\<close>

text \<open>Powers of two and the binary exponent.\<close>

lemma two_powi_pos [simp]: "0 < (2::rat) powi e"
  by (simp add: power_int_def)

lemma two_powi_mono: "a \<le> b \<Longrightarrow> (2::rat) powi a \<le> 2 powi b"
  by (rule power_int_increasing) simp_all

lemma two_powi_strict_mono: "a < b \<Longrightarrow> (2::rat) powi a < 2 powi b"
  by (rule power_int_strict_increasing) simp_all

lemma two_powi_add: "(2::rat) powi (a + b) = 2 powi a * 2 powi b"
  by (simp add: power_int_add)

lemma two_powi_diff: "(2::rat) powi (a - b) = 2 powi a / 2 powi b"
  by (simp add: power_int_diff)

lemma two_powi_Suc: "(2::rat) powi (e + 1) = 2 * 2 powi e"
  by (simp add: power_int_add)

lemma binade_unique:
  assumes "(2::rat) powi a \<le> x" "x < 2 powi (a + 1)" "2 powi b \<le> x" "x < 2 powi (b + 1)"
  shows "a = b"
proof (rule ccontr)
  assume "a \<noteq> b"
  then consider "a + 1 \<le> b" | "b + 1 \<le> a" by linarith
  then show False
  proof cases
    case 1
    then have "(2::rat) powi (a + 1) \<le> 2 powi b" by (rule two_powi_mono)
    with assms show False by linarith
  next
    case 2
    then have "(2::rat) powi (b + 1) \<le> 2 powi a" by (rule two_powi_mono)
    with assms show False by linarith
  qed
qed

lemma quotient_of_pos:
  assumes "0 < x"
  shows "0 < fst (quotient_of x)" "0 < snd (quotient_of x)"
    "x = of_int (fst (quotient_of x)) / of_int (snd (quotient_of x))"
proof -
  obtain a b where ab: "quotient_of x = (a, b)" by (cases "quotient_of x")
  then have b: "0 < b" by (rule quotient_of_denom_pos)
  have x: "x = of_int a / of_int b" using ab by (rule quotient_of_div)
  have "0 < a"
  proof (rule ccontr)
    assume "\<not> 0 < a"
    then have "(of_int a :: rat) \<le> 0" by simp
    then have "of_int a / (of_int b :: rat) \<le> 0" using b by (simp add: divide_le_0_iff)
    with x assms show False by simp
  qed
  with ab b x show "0 < fst (quotient_of x)" "0 < snd (quotient_of x)"
    "x = of_int (fst (quotient_of x)) / of_int (snd (quotient_of x))" by simp_all
qed

lemma bitlen_powi_bounds:
  assumes "0 < a"
  shows "(2::rat) powi (bitlen a - 1) \<le> of_int a" "of_int a < (2::rat) powi (bitlen a)"
proof -
  from bitlen_bounds[OF assms]
  have lo: "2 ^ nat (bitlen a - 1) \<le> a" and hi: "a < 2 ^ nat (bitlen a)" by simp_all
  have pos: "1 \<le> bitlen a" using assms by (simp add: bitlen_alt_def)
  have "(of_int (2 ^ nat (bitlen a - 1)) :: rat) \<le> of_int a" using lo by (simp only: of_int_le_iff)
  then show "(2::rat) powi (bitlen a - 1) \<le> of_int a" using pos by (simp add: power_int_def)
  have "(of_int a :: rat) < of_int (2 ^ nat (bitlen a))" using hi by (simp only: of_int_less_iff)
  then show "of_int a < (2::rat) powi (bitlen a)" using pos by (simp add: power_int_def)
qed

lemma ilog2_bounds:
  assumes "0 < x"
  shows "2 powi (ilog2 x) \<le> x" "x < 2 powi (ilog2 x + 1)"
proof -
  define a where "a = fst (quotient_of x)"
  define b where "b = snd (quotient_of x)"
  define d where "d = bitlen a - bitlen b"
  have a: "0 < a" and b: "0 < b" and x: "x = of_int a / of_int b"
    using quotient_of_pos[OF assms] by (simp_all add: a_def b_def)
  have bq: "(0::rat) < of_int b" using b by simp
  have "of_int a < (2::rat) powi (bitlen a)" using bitlen_powi_bounds[OF a] by simp
  moreover have "(2::rat) powi (bitlen b - 1) \<le> of_int b" using bitlen_powi_bounds[OF b] by simp
  ultimately have "x * 2 powi (bitlen b - 1) < 2 powi (bitlen a)"
  proof -
    assume 1: "of_int a < (2::rat) powi (bitlen a)"
      and 2: "(2::rat) powi (bitlen b - 1) \<le> of_int b"
    have "x * 2 powi (bitlen b - 1) \<le> x * of_int b" using 2 assms by (simp add: mult_left_mono)
    also have "\<dots> = of_int a" unfolding x using bq by simp
    finally show ?thesis using 1 by linarith
  qed
  then have "x < 2 powi (bitlen a) / 2 powi (bitlen b - 1)"
    by (simp add: pos_less_divide_eq)
  also have "\<dots> = 2 powi (d + 1)" by (simp add: d_def flip: two_powi_diff) (simp add: algebra_simps)
  finally have hi: "x < 2 powi (d + 1)" .
  have "(2::rat) powi (bitlen a - 1) \<le> of_int a" using bitlen_powi_bounds[OF a] by simp
  moreover have "of_int b < (2::rat) powi (bitlen b)" using bitlen_powi_bounds[OF b] by simp
  ultimately have "2 powi (bitlen a - 1) \<le> x * 2 powi (bitlen b)"
  proof -
    assume 1: "(2::rat) powi (bitlen a - 1) \<le> of_int a" and 2: "of_int b < (2::rat) powi (bitlen b)"
    have "of_int a = x * of_int b" unfolding x using bq by simp
    also have "\<dots> \<le> x * 2 powi (bitlen b)" using 2 assms by (simp add: mult_left_mono)
    finally show ?thesis using 1 by linarith
  qed
  then have "2 powi (bitlen a - 1) / 2 powi (bitlen b) \<le> x"
    by (simp add: pos_divide_le_eq)
  moreover have "(2::rat) powi (bitlen a - 1) / 2 powi (bitlen b) = 2 powi (d - 1)"
    by (simp add: d_def flip: two_powi_diff) (simp add: algebra_simps)
  ultimately have lo: "2 powi (d - 1) \<le> x" by simp
  have il: "ilog2 x = (if 2 powi d \<le> x then d else d - 1)"
    by (simp add: ilog2_def Let_def d_def a_def b_def)
  show "2 powi (ilog2 x) \<le> x" using lo il by simp
  show "x < 2 powi (ilog2 x + 1)" using hi il by (auto simp: not_le)
qed

lemma ilog2_unique:
  assumes "2 powi e \<le> x" "x < 2 powi (e + 1)"
  shows "ilog2 x = e"
proof -
  have "0 < x" using assms(1) two_powi_pos[of e] by linarith
  from ilog2_bounds[OF this] assms show ?thesis by (rule binade_unique)
qed

lemma ilog2_mono:
  assumes "0 < x" "x \<le> y"
  shows "ilog2 x \<le> ilog2 y"
proof (rule ccontr)
  assume "\<not> ilog2 x \<le> ilog2 y"
  then have "ilog2 y + 1 \<le> ilog2 x" by simp
  then have "(2::rat) powi (ilog2 y + 1) \<le> 2 powi (ilog2 x)" by (rule two_powi_mono)
  moreover have "0 < y" using assms by simp
  ultimately show False using ilog2_bounds[OF assms(1)] ilog2_bounds[OF \<open>0 < y\<close>] assms(2)
    by linarith
qed

text \<open>
  \<open>round\<close>: the result is the integer within one half, the even one on a tie; it is
  monotone.
\<close>

lemma py_round_cases:
  "py_round x = m \<longleftrightarrow>
     \<bar>x - of_int m\<bar> < 1 / 2 \<or> (\<bar>x - of_int m\<bar> = 1 / 2 \<and> even m)"
proof -
  define f where "f = \<lfloor>x\<rfloor>"
  define d where "d = x - of_int f"
  have d: "0 \<le> d" "d < 1" and x: "x = of_int f + d"
    by (simp_all add: d_def f_def) linarith
  have pr: "py_round x = (if d < 1 / 2 then f else if 1 / 2 < d then f + 1
                          else if even f then f else f + 1)"
    by (simp add: py_round_def Let_def f_def d_def)
  have diff: "x - of_int m = of_int (f - m) + d" by (simp add: x)
  consider "m \<le> f - 1" | "m = f" | "m = f + 1" | "f + 2 \<le> m" by linarith
  then show ?thesis
  proof cases
    case 1
    then have "1 \<le> f - m" by simp
    then have "(1::rat) \<le> of_int (f - m)" by (simp only: of_int_1_le_iff)
    then have "1 \<le> x - of_int m" using d diff by linarith
    moreover have "py_round x \<noteq> m" using 1 pr by (auto split: if_splits)
    ultimately show ?thesis by auto
  next
    case 2
    then have "\<bar>x - of_int m\<bar> = d" using d diff by simp
    then show ?thesis using pr 2 d by (auto split: if_splits)
  next
    case 3
    then have "x - of_int m = d - 1" using diff by simp
    then have "\<bar>x - of_int m\<bar> = 1 - d" using d by simp
    then show ?thesis using pr 3 d by (auto split: if_splits)
  next
    case 4
    then have "f - m \<le> - 2" by simp
    then have "(of_int (f - m) :: rat) \<le> of_int (- 2)" by (simp only: of_int_le_iff)
    then have "of_int (f - m) \<le> (- 2::rat)" by simp
    then have "x - of_int m \<le> - 1" using d diff by linarith
    moreover have "py_round x \<noteq> m" using 4 pr by (auto split: if_splits)
    ultimately show ?thesis by auto
  qed
qed

lemma py_round_near: "\<bar>x - of_int m\<bar> < 1 / 2 \<Longrightarrow> py_round x = m"
  by (simp add: py_round_cases)

lemma py_round_err: "\<bar>x - of_int (py_round x)\<bar> \<le> 1 / 2"
  using py_round_cases[of x "py_round x"] by auto

lemma py_round_of_int [simp]: "py_round (of_int n) = n"
  by (simp add: py_round_cases)

lemma py_round_mono:
  assumes "x \<le> y"
  shows "py_round x \<le> py_round y"
proof (rule ccontr)
  assume "\<not> py_round x \<le> py_round y"
  then have "py_round y + 1 \<le> py_round x" by simp
  then have "(of_int (py_round y + 1) :: rat) \<le> of_int (py_round x)"
    by (simp only: of_int_le_iff)
  then have *: "(of_int (py_round y) :: rat) + 1 \<le> of_int (py_round x)"
    by simp
  have "x = y" using * py_round_err[of x] py_round_err[of y] assms by linarith
  with \<open>\<not> py_round x \<le> py_round y\<close> show False by simp
qed

lemma py_int_nonneg: "0 \<le> x \<Longrightarrow> py_int x = \<lfloor>x\<rfloor>"
  by (simp add: py_int_def)

text \<open>
  \<open>fl\<close>: how to evaluate it at a given number, its error, and its monotonicity on
  the nonnegative numbers.
\<close>

lemma quantum_pos [simp]: "0 < quantum x"
  by (simp add: quantum_def)

lemma quantum_nonneg [simp]: "0 \<le> quantum x"
  using quantum_pos[of x] by linarith

lemma quantum_neq0 [simp]: "quantum x \<noteq> 0"
  using quantum_pos[of x] by linarith

lemma fl_quantum: "x \<noteq> 0 \<Longrightarrow> fl x = of_int (py_round (x / quantum x)) * quantum x"
  by (simp add: fl_def quantum_def Let_def)

lemma fl_zero [simp]: "fl 0 = 0"
  by (simp add: fl_def)

lemma quantum_eqI:
  assumes "2 powi e \<le> x" "x < 2 powi (e + 1)" "- 1022 \<le> e"
  shows "quantum x = 2 powi (e - 52)"
proof -
  have "0 < x" using assms(1) two_powi_pos[of e] by linarith
  then have "\<bar>x\<bar> = x" by simp
  moreover have "ilog2 x = e" using assms(1,2) by (rule ilog2_unique)
  ultimately show ?thesis using assms(3) by (simp add: quantum_def)
qed

lemma fl_eqI:
  assumes "2 powi e \<le> x" "x < 2 powi (e + 1)" "- 1022 \<le> e"
    and "\<bar>x / 2 powi (e - 52) - of_int m\<bar> < 1 / 2"
  shows "fl x = of_int m * 2 powi (e - 52)"
proof -
  have "0 < x" using assms(1) two_powi_pos[of e] by linarith
  then have "x \<noteq> 0" by simp
  moreover have "quantum x = 2 powi (e - 52)" using assms(1-3) by (rule quantum_eqI)
  moreover have "py_round (x / 2 powi (e - 52)) = m" using assms(4) by (rule py_round_near)
  ultimately show ?thesis by (simp add: fl_quantum)
qed

lemma fl_tie_eqI:
  assumes "2 powi e \<le> x" "x < 2 powi (e + 1)" "- 1022 \<le> e"
    and "\<bar>x / 2 powi (e - 52) - of_int m\<bar> = 1 / 2 \<and> even m"
  shows "fl x = of_int m * 2 powi (e - 52)"
proof -
  have "0 < x" using assms(1) two_powi_pos[of e] by linarith
  then have "x \<noteq> 0" by simp
  moreover have "quantum x = 2 powi (e - 52)" using assms(1-3) by (rule quantum_eqI)
  moreover have "py_round (x / 2 powi (e - 52)) = m" using assms(4) by (simp add: py_round_cases)
  ultimately show ?thesis by (simp add: fl_quantum)
qed

lemma py_round_0 [simp]: "py_round 0 = 0"
  using py_round_of_int[of 0] by simp

lemma two_powi_split: "(2::rat) powi a * 2 powi (e - a) = 2 powi e"
  by (simp flip: power_int_add)

lemma two_powi_split1: "(2::rat) powi (a + 1) * 2 powi (e - a) = 2 powi (e + 1)"
proof -
  have "(2::rat) powi (a + 1) * 2 powi (e - a) = 2 powi ((a + 1) + (e - a))"
    by (rule power_int_add[symmetric]) simp
  also have "(a + 1) + (e - a) = e + 1" by simp
  finally show ?thesis .
qed

lemma fl_nonneg:
  assumes "0 \<le> x"
  shows "0 \<le> fl x"
proof (cases "x = 0")
  case True
  then show ?thesis by simp
next
  case False
  have "0 \<le> x / quantum x" using assms by (intro divide_nonneg_nonneg) simp_all
  then have "py_round 0 \<le> py_round (x / quantum x)" by (rule py_round_mono)
  then have "0 \<le> py_round (x / quantum x)" by simp
  then show ?thesis using False by (simp add: fl_quantum)
qed

lemma fl_err:
  assumes "x \<noteq> 0"
  shows "\<bar>fl x - x\<bar> \<le> quantum x / 2"
proof -
  define q where "q = quantum x"
  define m where "m = py_round (x / q)"
  have q: "0 < q" by (simp add: q_def)
  have "\<bar>x / q - of_int m\<bar> \<le> 1 / 2" unfolding m_def by (rule py_round_err)
  then have "\<bar>x / q - of_int m\<bar> * q \<le> 1 / 2 * q" using q by (simp add: mult_right_mono)
  moreover have "\<bar>x / q - of_int m\<bar> * q = \<bar>x - of_int m * q\<bar>"
  proof -
    have "\<bar>x / q - of_int m\<bar> * q = \<bar>(x / q - of_int m) * q\<bar>" using q by (simp add: abs_mult)
    also have "(x / q - of_int m) * q = x - of_int m * q" using q by (simp add: algebra_simps)
    finally show ?thesis .
  qed
  ultimately have "\<bar>x - of_int m * q\<bar> \<le> q / 2" by simp
  moreover have "fl x = of_int m * q" using assms by (simp add: fl_quantum q_def m_def)
  ultimately show ?thesis by (simp add: q_def abs_minus_commute)
qed

lemma quantum_normal:
  assumes "2 powi (- 1022) \<le> x"
  shows "quantum x = 2 powi (ilog2 x - 52)" "quantum x \<le> x / 2 ^ 52"
proof -
  have pos: "0 < x" using assms two_powi_pos[of "- 1022"] by linarith
  have "- 1022 \<le> ilog2 x"
  proof (rule ccontr)
    assume "\<not> - 1022 \<le> ilog2 x"
    then have "ilog2 x + 1 \<le> - 1022" by simp
    then have "(2::rat) powi (ilog2 x + 1) \<le> 2 powi (- 1022)" by (rule two_powi_mono)
    with ilog2_bounds(2)[OF pos] assms show False by linarith
  qed
  then show q: "quantum x = 2 powi (ilog2 x - 52)" using pos by (simp add: quantum_def)
  have "quantum x = 2 powi (ilog2 x) / 2 powi 52" unfolding q by (rule two_powi_diff)
  also have "\<dots> \<le> x / 2 powi 52" using ilog2_bounds(1)[OF pos]
    by (intro divide_right_mono) simp_all
  finally show "quantum x \<le> x / 2 ^ 52" by simp
qed

lemma fl_rel_err:
  assumes "2 powi (- 1022) \<le> x"
  shows "\<bar>fl x - x\<bar> \<le> x / 2 ^ 53"
proof -
  have pos: "0 < x" using assms two_powi_pos[of "- 1022"] by linarith
  then have "\<bar>fl x - x\<bar> \<le> quantum x / 2" by (intro fl_err) simp
  also have "\<dots> \<le> (x / 2 ^ 52) / 2" using quantum_normal(2)[OF assms] by simp
  also have "\<dots> = x / 2 ^ 53" by simp
  finally show ?thesis .
qed

lemma fl_le_next_binade:
  assumes "0 < x" "x < 2 powi (e + 1)" "max (ilog2 x) (- 1022) \<le> e"
  shows "fl x \<le> 2 powi (e + 1)"
proof -
  define e0 where "e0 = max (ilog2 x) (- 1022)"
  have q: "quantum x = 2 powi (e0 - 52)" using assms(1) by (simp add: quantum_def e0_def)
  have "x < 2 powi (e0 + 1)"
  proof -
    have "x < 2 powi (ilog2 x + 1)" using assms(1) by (rule ilog2_bounds)
    also have "\<dots> \<le> 2 powi (e0 + 1)" by (rule two_powi_mono) (simp add: e0_def)
    finally show ?thesis .
  qed
  then have "x / quantum x \<le> 2 powi (e0 + 1) / quantum x"
    by (intro divide_right_mono) simp_all
  also have "2 powi (e0 + 1) / quantum x = 2 powi 53"
    unfolding q by (simp flip: two_powi_diff)
  also have "(2::rat) powi 53 = of_int (2 ^ 53)" by simp
  finally have "py_round (x / quantum x) \<le> py_round (of_int (2 ^ 53))" by (rule py_round_mono)
  then have "py_round (x / quantum x) \<le> 2 ^ 53" by (simp only: py_round_of_int)
  then have "(of_int (py_round (x / quantum x)) :: rat) \<le> of_int (2 ^ 53)"
    by (simp only: of_int_le_iff)
  then have "of_int (py_round (x / quantum x)) * quantum x \<le> of_int (2 ^ 53) * quantum x"
    by (simp add: mult_right_mono)
  also have "of_int (2 ^ 53) * quantum x = 2 powi 53 * 2 powi (e0 - 52)" unfolding q by simp
  also have "\<dots> = 2 powi (e0 + 1)" using two_powi_split1[of 52 e0] by simp
  also have "\<dots> \<le> 2 powi (e + 1)" by (rule two_powi_mono) (use assms(3) in \<open>simp add: e0_def\<close>)
  finally show ?thesis using assms(1) by (simp add: fl_quantum)
qed

lemma fl_ge_binade:
  assumes "2 powi e \<le> x" "- 1022 \<le> e"
  shows "2 powi e \<le> fl x"
proof -
  have pos: "0 < x" using assms(1) two_powi_pos[of e] by linarith
  define e0 where "e0 = ilog2 x"
  have "e \<le> e0"
  proof (rule ccontr)
    assume "\<not> e \<le> e0"
    then have "e0 + 1 \<le> e" by simp
    then have "(2::rat) powi (e0 + 1) \<le> 2 powi e" by (rule two_powi_mono)
    with ilog2_bounds(2)[OF pos] assms(1) show False by (simp add: e0_def)
  qed
  then have e0: "- 1022 \<le> e0" using assms(2) by simp
  have q: "quantum x = 2 powi (e0 - 52)" using pos e0 by (simp add: quantum_def e0_def)
  have "2 powi e0 \<le> x" unfolding e0_def using pos by (rule ilog2_bounds)
  then have "2 powi e0 / quantum x \<le> x / quantum x"
    by (intro divide_right_mono) simp_all
  moreover have "2 powi e0 / quantum x = 2 powi 52"
    unfolding q by (simp flip: two_powi_diff)
  moreover have "(2::rat) powi 52 = of_int (2 ^ 52)" by simp
  ultimately have "of_int (2 ^ 52) \<le> x / quantum x" by simp
  then have "py_round (of_int (2 ^ 52)) \<le> py_round (x / quantum x)" by (rule py_round_mono)
  then have "2 ^ 52 \<le> py_round (x / quantum x)" by (simp only: py_round_of_int)
  then have "(of_int (2 ^ 52) :: rat) \<le> of_int (py_round (x / quantum x))"
    by (simp only: of_int_le_iff)
  then have *: "of_int (2 ^ 52) * quantum x \<le> of_int (py_round (x / quantum x)) * quantum x"
    by (simp add: mult_right_mono)
  have "(2::rat) powi e \<le> 2 powi e0" using \<open>e \<le> e0\<close> by (rule two_powi_mono)
  also have "\<dots> = 2 powi 52 * 2 powi (e0 - 52)" by (rule two_powi_split[symmetric])
  also have "\<dots> = of_int (2 ^ 52) * quantum x" unfolding q by simp
  also note *
  also have "of_int (py_round (x / quantum x)) * quantum x = fl x"
    using pos by (simp add: fl_quantum)
  finally show ?thesis .
qed

lemma fl_mono:
  assumes "0 \<le> x" "x \<le> y"
  shows "fl x \<le> fl y"
proof (cases "x = 0")
  case True
  then show ?thesis using assms fl_nonneg[of y] by simp
next
  case False
  then have x: "0 < x" and y: "0 < y" using assms by simp_all
  define ex where "ex = max (ilog2 x) (- 1022)"
  define ey where "ey = max (ilog2 y) (- 1022)"
  have le: "ex \<le> ey" using ilog2_mono[OF x assms(2)] by (simp add: ex_def ey_def)
  have qx: "quantum x = 2 powi (ex - 52)" using x by (simp add: quantum_def ex_def)
  have qy: "quantum y = 2 powi (ey - 52)" using y by (simp add: quantum_def ey_def)
  show ?thesis
  proof (cases "ex = ey")
    case True
    then have q: "quantum x = quantum y" by (simp add: qx qy)
    have "x / quantum y \<le> y / quantum y" using assms(2)
      by (intro divide_right_mono) simp_all
    then have "py_round (x / quantum y) \<le> py_round (y / quantum y)" by (rule py_round_mono)
    then have "(of_int (py_round (x / quantum y)) :: rat) \<le> of_int (py_round (y / quantum y))"
      by (simp only: of_int_le_iff)
    then have "of_int (py_round (x / quantum y)) * quantum y
        \<le> of_int (py_round (y / quantum y)) * quantum y"
      by (simp add: mult_right_mono)
    then show ?thesis using x y q by (simp add: fl_quantum)
  next
    case False
    then have lt: "ex + 1 \<le> ey" using le by simp
    then have "ey = ilog2 y" "- 1022 \<le> ey" using le by (auto simp: ex_def ey_def)
    then have "2 powi ey \<le> y" using ilog2_bounds(1)[OF y] by simp
    then have "2 powi ey \<le> fl y" using \<open>- 1022 \<le> ey\<close> by (rule fl_ge_binade)
    moreover have "fl x \<le> 2 powi (ex + 1)"
    proof (rule fl_le_next_binade[OF x])
      have "x < 2 powi (ilog2 x + 1)" using x by (rule ilog2_bounds)
      also have "\<dots> \<le> 2 powi (ex + 1)" by (rule two_powi_mono) (simp add: ex_def)
      finally show "x < 2 powi (ex + 1)" .
      show "max (ilog2 x) (- 1022) \<le> ex" by (simp add: ex_def)
    qed
    moreover have "(2::rat) powi (ex + 1) \<le> 2 powi ey" using lt by (rule two_powi_mono)
    ultimately show ?thesis by linarith
  qed
qed

lemma fl_exactI:
  assumes "0 < x" "x / quantum x = of_int m"
  shows "fl x = x"
proof -
  have "py_round (x / quantum x) = m" unfolding assms(2) by simp
  then have "fl x = of_int m * quantum x" using assms(1) by (simp add: fl_quantum)
  also have "\<dots> = x / quantum x * quantum x" by (simp only: assms(2))
  also have "\<dots> = x" by simp
  finally show ?thesis .
qed

text \<open>Integers up to \<open>2^53\<close> are doubles.\<close>

lemma fl_of_int:
  assumes "0 \<le> n" "n \<le> 2 ^ 53"
  shows "fl (of_int n) = of_int n"
proof (cases "n = 0")
  case True
  then show ?thesis by simp
next
  case False
  then have n: "0 < n" using assms by simp
  define x :: rat where "x = of_int n"
  have x: "0 < x" using n by (simp add: x_def)
  have x1: "1 \<le> x" using n by (simp add: x_def)
  define e where "e = ilog2 x"
  have e0: "0 \<le> e"
  proof (rule ccontr)
    assume "\<not> 0 \<le> e"
    then have "e + 1 \<le> 0" by simp
    then have "(2::rat) powi (e + 1) \<le> 2 powi 0" by (rule two_powi_mono)
    with ilog2_bounds(2)[OF x] x1 show False by (simp add: e_def)
  qed
  have q: "quantum x = 2 powi (e - 52)" using x e0 by (simp add: quantum_def e_def)
  show ?thesis
  proof (cases "e \<le> 52")
    case True
    have "x / quantum x = x * 2 powi (52 - e)"
      unfolding q by (simp add: power_int_diff)
    also have "(2::rat) powi (52 - e) = 2 ^ nat (52 - e)" using True by (simp add: power_int_def)
    also have "x * 2 ^ nat (52 - e) = of_int (n * 2 ^ nat (52 - e))" by (simp add: x_def)
    finally have "x / quantum x = of_int (n * 2 ^ nat (52 - e))" .
    with x have "fl x = x" by (rule fl_exactI)
    then show ?thesis by (simp add: x_def)
  next
    case False
    then have "53 \<le> e" by simp
    then have "(2::rat) powi 53 \<le> 2 powi e" by (rule two_powi_mono)
    also have "\<dots> \<le> x" unfolding e_def using x by (rule ilog2_bounds)
    finally have "(2::rat) ^ 53 \<le> of_int n" by (simp add: x_def)
    moreover have "(of_int n :: rat) \<le> of_int (2 ^ 53)" using assms(2) by (simp only: of_int_le_iff)
    ultimately have xe: "x = 2 ^ 53" by (simp add: x_def)
    have "(2::rat) powi 53 \<le> x" "x < 2 powi (53 + 1)" by (simp_all add: xe)
    then have "ilog2 x = 53" by (rule ilog2_unique)
    then have "quantum x = 2" using x by (simp add: quantum_def)
    then have "x / quantum x = of_int (2 ^ 52)" by (simp add: xe)
    with x have "fl x = x" by (rule fl_exactI)
    then show ?thesis by (simp add: x_def)
  qed
qed

text \<open>So are the multiples of a power of two with at most 53 bits.\<close>

lemma fl_dyadic:
  assumes n: "0 < n" "n < 2 ^ 53" and d: "d \<le> 1022"
  shows "fl (of_int n / 2 ^ d) = of_int n / 2 ^ d"
proof -
  define x :: rat where "x = of_int n / 2 ^ d"
  define e where "e = ilog2 x"
  have x: "0 < x" using n(1) by (simp add: x_def)
  have lo: "2 powi e \<le> x" and hi: "x < 2 powi (e + 1)"
    unfolding e_def using x by (rule ilog2_bounds)+
  have pd: "(2::rat) ^ d = 2 powi (int d)" by simp
  have "(of_int n :: rat) < of_int (2 ^ 53)" using n(2) by (simp only: of_int_less_iff)
  then have "(of_int n :: rat) < 2 powi 53" by simp
  then have "x < 2 powi 53 / 2 powi (int d)" unfolding x_def pd
    by (intro divide_strict_right_mono) simp_all
  also have "\<dots> = 2 powi (53 - int d)" by (rule two_powi_diff[symmetric])
  finally have "(2::rat) powi e < 2 powi (53 - int d)" using lo by linarith
  then have e_hi: "e \<le> 52 - int d"
  proof -
    assume a: "(2::rat) powi e < 2 powi (53 - int d)"
    show ?thesis
    proof (rule ccontr)
      assume "\<not> e \<le> 52 - int d"
      then have "53 - int d \<le> e" by simp
      then have "(2::rat) powi (53 - int d) \<le> 2 powi e" by (rule two_powi_mono)
      with a show False by simp
    qed
  qed
  have "(1::rat) \<le> of_int n" using n(1) by simp
  then have "1 / 2 powi (int d) \<le> x" unfolding x_def pd by (intro divide_right_mono) simp_all
  moreover have "(1::rat) / 2 powi (int d) = 2 powi (0 - int d)"
    using two_powi_diff[of 0 "int d"] by simp
  ultimately have "(2::rat) powi (0 - int d) < 2 powi (e + 1)" using hi by linarith
  then have e_lo: "- int d \<le> e"
  proof -
    assume a: "(2::rat) powi (0 - int d) < 2 powi (e + 1)"
    show ?thesis
    proof (rule ccontr)
      assume "\<not> - int d \<le> e"
      then have "e + 1 \<le> 0 - int d" by simp
      then have "(2::rat) powi (e + 1) \<le> 2 powi (0 - int d)" by (rule two_powi_mono)
      with a show False by simp
    qed
  qed
  have e1022: "- 1022 \<le> e" using e_lo d by simp
  have q: "quantum x = 2 powi (e - 52)" using lo hi e1022 by (rule quantum_eqI)
  define j where "j = nat (52 - int d - e)"
  have j: "int j = 52 - int d - e" using e_hi by (simp add: j_def)
  have a1: "(1::rat) / 2 powi (e - 52) = 2 powi (52 - e)"
    using two_powi_diff[of 0 "e - 52"] by simp
  have a2: "(2::rat) powi (52 - e) / 2 powi (int d) = 2 powi (52 - e - int d)"
    by (rule two_powi_diff[symmetric])
  have "52 - e - int d = int j" using j by simp
  then have "(2::rat) powi (52 - e - int d) = 2 powi (int j)" by simp
  then have a3: "(2::rat) powi (52 - e - int d) = 2 ^ j" by simp
  have "x / quantum x = x * (1 / 2 powi (e - 52))" unfolding q by simp
  also have "\<dots> = x * 2 powi (52 - e)" by (simp only: a1)
  also have "\<dots> = of_int n * (2 powi (52 - e) / 2 powi (int d))" by (simp add: x_def)
  also have "\<dots> = of_int n * 2 ^ j" by (simp only: a2 a3)
  also have "\<dots> = of_int (n * 2 ^ j)" by simp
  finally have "x / quantum x = of_int (n * 2 ^ j)" .
  with x have "fl x = x" by (rule fl_exactI)
  then show ?thesis by (simp only: x_def)
qed

section \<open>Direction and turn-off\<close>

lemma bind_Inr [simp]: "bind (Inr v) f = f v"
  by (simp add: bind_def)

lemma bind_Inl [simp]: "bind (Inl e) f = Inl e"
  by (simp add: bind_def)

lemma decode_zero [simp]: "decode steps 0 = Inr 0"
  by (simp add: decode_def)

text \<open>
  C8.  Without a reversal join the direction is \<open>None\<close> and setting it returns the hub
  as it was, with no write recorded.  With a reversal join \<open>j\<close> the direction is
  \<open>reverse\<close> exactly when the digital join reads true and \<open>forward\<close> exactly when it
  reads false, and setting direction \<open>d\<close> is the single call
  \<open>set_digital j (d = reverse)\<close>.
\<close>

theorem direction_mapper:
  "(reverse_join cfg = None \<longrightarrow>
      current_direction cfg h = None \<and> async_set_direction cfg h d = h) \<and>
   (reverse_join cfg = Some j \<longrightarrow>
      (current_direction cfg h = Some ''reverse'' \<longleftrightarrow> get_digital h j) \<and>
      (current_direction cfg h = Some ''forward'' \<longleftrightarrow> \<not> get_digital h j) \<and>
      async_set_direction cfg h d = set_digital h j (d = ''reverse'') \<and>
      written (async_set_direction cfg h d) = written h @ [Set_digital j (d = ''reverse'')] \<and>
      get_digital (async_set_direction cfg h d) j = (d = ''reverse''))"
  by (simp add: current_direction_def async_set_direction_def set_digital_def
      get_digital_def)

theorem direction_mapper_witness:
  "current_direction
     \<lparr>conf_name = ''fan'', speed_join = 1, speed_steps = None, reverse_join = None\<rparr>
     \<lparr>analog = (\<lambda>_. 0), digital = (\<lambda>_. True), available = True, written = []\<rparr> = None \<and>
   async_set_direction
     \<lparr>conf_name = ''fan'', speed_join = 1, speed_steps = None, reverse_join = None\<rparr>
     \<lparr>analog = (\<lambda>_. 0), digital = (\<lambda>_. True), available = True, written = []\<rparr> ''reverse''
     = \<lparr>analog = (\<lambda>_. 0), digital = (\<lambda>_. True), available = True, written = []\<rparr> \<and>
   current_direction
     \<lparr>conf_name = ''fan'', speed_join = 1, speed_steps = None, reverse_join = Some 2\<rparr>
     \<lparr>analog = (\<lambda>_. 0), digital = (\<lambda>_. True), available = True, written = []\<rparr>
     = Some ''reverse'' \<and>
   written (async_set_direction
     \<lparr>conf_name = ''fan'', speed_join = 1, speed_steps = None, reverse_join = Some 2\<rparr>
     \<lparr>analog = (\<lambda>_. 0), digital = (\<lambda>_. True), available = True, written = []\<rparr> ''forward'')
     = [Set_digital 2 False]"
  using
    direction_mapper
      [of "\<lparr>conf_name = ''fan'', speed_join = 1, speed_steps = None, reverse_join = None\<rparr>"
          "\<lparr>analog = (\<lambda>_. 0), digital = (\<lambda>_. True), available = True, written = []\<rparr>"
          "''reverse''" 2]
    direction_mapper
      [of "\<lparr>conf_name = ''fan'', speed_join = 1, speed_steps = None, reverse_join = Some 2\<rparr>"
          "\<lparr>analog = (\<lambda>_. 0), digital = (\<lambda>_. True), available = True, written = []\<rparr>"
          "''forward''" 2]
  by (auto simp: get_digital_def)

text \<open>
  C10.  With a reversal join \<open>j\<close>, \<open>async_set_direction\<close> issues exactly one hub call,
  a digital write to \<open>j\<close>.  Every analog join (the speed join among them), every other
  digital join and the availability flag are as before, and for every direction other
  than \<open>reverse\<close> the value written is false.
\<close>

theorem set_direction_frame:
  "reverse_join cfg = Some j \<Longrightarrow>
     analog (async_set_direction cfg h d) = analog h \<and>
     get_analog (async_set_direction cfg h d) (speed_join cfg) = get_analog h (speed_join cfg) \<and>
     (\<forall>k. k \<noteq> j \<longrightarrow> digital (async_set_direction cfg h d) k = digital h k) \<and>
     available (async_set_direction cfg h d) = available h \<and>
     (\<exists>b. written (async_set_direction cfg h d) = written h @ [Set_digital j b] \<and>
          digital (async_set_direction cfg h d) j = b \<and>
          (d \<noteq> ''reverse'' \<longrightarrow> b = False))"
  by (simp add: async_set_direction_def set_digital_def get_analog_def)

theorem set_direction_frame_witness:
  "analog (async_set_direction
     \<lparr>conf_name = ''fan'', speed_join = 1, speed_steps = None, reverse_join = Some 2\<rparr>
     \<lparr>analog = (\<lambda>_. 9), digital = (\<lambda>_. True), available = True, written = []\<rparr> ''sideways'')
     = (\<lambda>_. 9) \<and>
   digital (async_set_direction
     \<lparr>conf_name = ''fan'', speed_join = 1, speed_steps = None, reverse_join = Some 2\<rparr>
     \<lparr>analog = (\<lambda>_. 9), digital = (\<lambda>_. True), available = True, written = []\<rparr> ''sideways'') 3
     = True \<and>
   digital (async_set_direction
     \<lparr>conf_name = ''fan'', speed_join = 1, speed_steps = None, reverse_join = Some 2\<rparr>
     \<lparr>analog = (\<lambda>_. 9), digital = (\<lambda>_. True), available = True, written = []\<rparr> ''sideways'') 2
     = False"
  using
    set_direction_frame
      [of "\<lparr>conf_name = ''fan'', speed_join = 1, speed_steps = None, reverse_join = Some 2\<rparr>"
          2
          "\<lparr>analog = (\<lambda>_. 9), digital = (\<lambda>_. True), available = True, written = []\<rparr>"
          "''sideways''"]
  by auto

text \<open>
  C9.  \<open>async_turn_on\<close> with the explicit percentage 0 takes the zero branch of
  \<open>async_set_percentage\<close>: its result is the result of \<open>async_turn_off\<close>, the single
  hub call is the analog write of 0 to the speed join, and afterwards the fan reports
  percentage 0 and is off.  This holds for every configuration.
\<close>

theorem turn_on_zero_is_turn_off:
  "async_turn_on cfg h (Some 0) = Inr (async_turn_off cfg h) \<and>
   written (async_turn_off cfg h) = written h @ [Set_analog (speed_join cfg) 0] \<and>
   get_analog (async_turn_off cfg h) (speed_join cfg) = 0 \<and>
   percentage cfg (async_turn_off cfg h) = Inr 0 \<and>
   is_on cfg (async_turn_off cfg h) = Inr False"
  by (simp add: async_turn_on_def turn_on_percentage_def async_set_percentage_def
      async_turn_off_def set_analog_def get_analog_def percentage_def is_on_def)

section \<open>The operations on small operands\<close>

text \<open>
  Up to \<open>2^53\<close> nothing overflows and the conversion of an \<open>int\<close> is exact.
\<close>

lemma finite_or_raise_small: "0 \<le> y \<Longrightarrow> y \<le> 2 ^ 53 \<Longrightarrow> finite_or_raise y = Inr y"
proof -
  assume a: "0 \<le> y" "y \<le> 2 ^ 53"
  have "(2::rat) ^ 53 < 2 ^ 1024" by (rule power_strict_increasing) simp_all
  with a have "\<not> 2 ^ 1024 \<le> \<bar>y\<bar>" by simp
  then show ?thesis by (simp add: finite_or_raise_def)
qed

lemma int_to_float_small: "0 \<le> n \<Longrightarrow> n \<le> 2 ^ 53 \<Longrightarrow> int_to_float n = Inr (of_int n)"
proof -
  assume a: "0 \<le> n" "n \<le> 2 ^ 53"
  then have "fl (of_int n) = of_int n" by (rule fl_of_int)
  moreover have "(of_int n :: rat) \<le> of_int (2 ^ 53)" using a(2) by (simp only: of_int_le_iff)
  ultimately show ?thesis using a(1) by (simp add: int_to_float_def finite_or_raise_small)
qed

lemma fl_numeral: "numeral n \<le> (2::int) ^ 53 \<Longrightarrow> fl (numeral n) = numeral n"
  using fl_of_int[of "numeral n"] by simp

lemma fl_one: "fl 1 = 1"
  using fl_of_int[of 1] by simp

lemma py_round_numeral [simp]: "py_round (numeral n) = numeral n"
  using py_round_of_int[of "numeral n"] by simp

lemma py_round_1 [simp]: "py_round 1 = 1"
  using py_round_of_int[of 1] by simp

lemma py_int_of_int: "0 \<le> n \<Longrightarrow> py_int (of_int n) = n"
  by (simp add: py_int_def)

lemma py_int_numeral [simp]: "py_int (numeral n) = numeral n"
  using py_int_of_int[of "numeral n"] by simp

lemma py_int_0 [simp]: "py_int 0 = 0"
  by (simp add: py_int_def)

lemma py_int_1 [simp]: "py_int 1 = 1"
  by (simp add: py_int_def)

lemma py_int_eqI: "of_int n \<le> x \<Longrightarrow> x < of_int n + 1 \<Longrightarrow> 0 \<le> n \<Longrightarrow> py_int x = n"
proof -
  assume a: "of_int n \<le> x" "x < of_int n + 1" "0 \<le> n"
  then have "(0::rat) \<le> of_int n" by simp
  with a(1) have "0 \<le> x" by linarith
  moreover have "\<lfloor>x\<rfloor> = n" using a(1,2) by (simp add: floor_eq_iff)
  ultimately show ?thesis by (simp add: py_int_def)
qed

section \<open>The decoder reports 0 for a running fan with more than 100 steps\<close>

lemma analog_value_101_1: "analog_value (Some 101) 1 = Inr 648"
proof -
  have f1: "fl (1 / 100) = 5764607523034235 / 576460752303423488"
    using fl_eqI[of "- 7" "1 / 100" 5764607523034235] by (simp add: power_int_minus)
  have f2: "fl (582225359826457735 / 576460752303423488) = 4548635623644201 / 4503599627370496"
    using fl_eqI[of 0 "582225359826457735 / 576460752303423488" 4548635623644201] by (simp add: power_int_minus)
  have r3: "py_round (4548635623644201 / 4503599627370496) = 1"
    by (rule py_round_near) simp
  have f4: "fl (65535 / 101) = 713430638874259 / 1099511627776"
    using fl_eqI[of 9 "65535 / 101" 5707445110994072] by (simp add: power_int_minus)
  have t5: "py_int (713430638874259 / 1099511627776) = 648"
    by (rule py_int_eqI) simp_all
  show ?thesis
    by (simp add: analog_value_def target_step_def int_truediv_def float_mul_int_def float_mul_def
        int_to_float_small finite_or_raise_small fl_numeral fl_one f1 f2 r3 f4 t5)
qed

lemma current_step_101_648: "current_step 101 648 = Inr 1"
proof -
  have f1: "fl (65535 / 101) = 713430638874259 / 1099511627776"
    using fl_eqI[of 9 "65535 / 101" 5707445110994072] by (simp add: power_int_minus)
  have f2: "fl (712483534798848 / 713430638874259) = 281101308854185 / 281474976710656"
    using fl_eqI[of "- 1" "712483534798848 / 713430638874259" 8995241883333920] by (simp add: power_int_minus)
  have r3: "py_round (281101308854185 / 281474976710656) = 1"
    by (rule py_round_near) simp
  show ?thesis
    by (simp add: current_step_def int_truediv_def int_div_float_def float_truediv_def
        int_to_float_small finite_or_raise_small fl_numeral fl_one f1 f2 r3)
qed

lemma step_to_percentage_101_1: "step_to_percentage 101 1 = Inr 0"
proof -
  have f1: "fl (1 / 101) = 5707532201023995 / 576460752303423488"
    using fl_eqI[of "- 7" "1 / 101" 5707532201023995] by (simp add: power_int_minus)
  have f2: "fl (142688305025599875 / 144115188075855872) = 1114752383012499 / 1125899906842624"
    using fl_eqI[of "- 1" "142688305025599875 / 144115188075855872" 8918019064099992] by (simp add: power_int_minus)
  have t3: "py_int (1114752383012499 / 1125899906842624) = 0"
    by (rule py_int_eqI) simp_all
  show ?thesis
    by (simp add: step_to_percentage_def int_truediv_def float_mul_int_def float_mul_def
        int_to_float_small finite_or_raise_small fl_numeral fl_one f1 f2 t3)
qed

text \<open>
  C5.  Decoding 0 gives 0 in every configuration, and the stepless branch reports at
  least 1 for a nonzero raw value.  The stepped branch does not when there are more than
  100 steps: with 101 steps, \<open>async_set_percentage 1\<close> writes the raw value 648, which is
  step 1, and \<open>int((1 / 101) * 100)\<close> is 0, so the fan reports percentage 0 and is off
  while it runs at its lowest speed.
\<close>

theorem decode_101_steps_zero:
  "analog_value (Some 101) 1 = Inr 648 \<and>
   decode (Some 101) 648 = Inr 0 \<and>
   percentage \<lparr>conf_name = ''fan'', speed_join = 1, speed_steps = Some 101, reverse_join = None\<rparr>
     \<lparr>analog = (\<lambda>_. 648), digital = (\<lambda>_. False), available = True, written = []\<rparr> = Inr 0 \<and>
   is_on \<lparr>conf_name = ''fan'', speed_join = 1, speed_steps = Some 101, reverse_join = None\<rparr>
     \<lparr>analog = (\<lambda>_. 648), digital = (\<lambda>_. False), available = True, written = []\<rparr> = Inr False"
  by (simp add: analog_value_101_1 current_step_101_648 step_to_percentage_101_1
      decode_def stepped_percentage_def percentage_def is_on_def get_analog_def)

section \<open>Bounds for rounded results\<close>

text \<open>
  A rounded result lies between the integers that bound the exact one, and within the
  relative error \<open>2^-53\<close> of it.
\<close>

lemma fl_small:
  assumes "0 \<le> x" "x \<le> 2 ^ 53"
  shows "0 \<le> fl x" "fl x \<le> 2 ^ 53"
proof -
  show "0 \<le> fl x" using assms(1) by (rule fl_nonneg)
  have "fl x \<le> fl (of_int (2 ^ 53))" using assms by (intro fl_mono) simp_all
  also have "\<dots> = of_int (2 ^ 53)" by (rule fl_of_int) simp_all
  finally show "fl x \<le> 2 ^ 53" by simp
qed

lemma fl_le_int:
  assumes "0 \<le> x" "x \<le> of_int n" "n \<le> 2 ^ 53"
  shows "fl x \<le> of_int n"
proof -
  have "(0::rat) \<le> of_int n" using assms(1,2) by linarith
  then have n: "0 \<le> n" by simp
  have "fl x \<le> fl (of_int n)" using assms(1,2) by (rule fl_mono)
  also have "\<dots> = of_int n" using n assms(3) by (rule fl_of_int)
  finally show ?thesis .
qed

lemma fl_ge_int:
  assumes "0 \<le> n" "of_int n \<le> x" "n \<le> 2 ^ 53"
  shows "of_int n \<le> fl x"
proof -
  have "fl (of_int n) \<le> fl x" using assms(1,2) by (intro fl_mono) simp_all
  moreover have "fl (of_int n) = of_int n" using assms(1,3) by (rule fl_of_int)
  ultimately show ?thesis by simp
qed

lemma int_truediv_small:
  assumes "b \<noteq> 0" "0 \<le> of_int a / (of_int b :: rat)" "of_int a / (of_int b :: rat) \<le> 2 ^ 53"
  shows "int_truediv a b = Inr (fl (of_int a / of_int b))"
  using assms fl_small[OF assms(2,3)] by (simp add: int_truediv_def finite_or_raise_small)

lemma float_mul_int_small:
  assumes "0 \<le> n" "n \<le> 2 ^ 53" "0 \<le> x" "x * of_int n \<le> 2 ^ 53"
  shows "float_mul_int x n = Inr (fl (x * of_int n))"
proof -
  have "0 \<le> x * of_int n" using assms(1,3) by simp
  from fl_small[OF this assms(4)] show ?thesis
    using assms(1,2) by (simp add: float_mul_int_def float_mul_def int_to_float_small
        finite_or_raise_small)
qed

lemma fl_rel_err':
  assumes "1 / 2 ^ 64 \<le> x"
  shows "x - x / 2 ^ 53 \<le> fl x" "fl x \<le> x + x / 2 ^ 53"
proof -
  have "(2::rat) powi (- 1022) \<le> 2 powi (- 64)" by (rule two_powi_mono) simp
  also have "(2::rat) powi (- 64) = 1 / 2 ^ 64" by (simp add: power_int_minus_divide)
  finally have "2 powi (- 1022) \<le> x" using assms by linarith
  then have "\<bar>fl x - x\<bar> \<le> x / 2 ^ 53" by (rule fl_rel_err)
  then show "x - x / 2 ^ 53 \<le> fl x" "fl x \<le> x + x / 2 ^ 53" by linarith+
qed

lemma div_mod_rat:
  assumes "0 < s"
  shows "(of_int a :: rat) / of_int s = of_int (a div s) + of_int (a mod s) / of_int s"
proof -
  have "(of_int a :: rat) = of_int (a div s * s + a mod s)" by simp
  also have "\<dots> = of_int (a div s) * of_int s + of_int (a mod s)" by (simp only: of_int_add of_int_mult)
  finally show ?thesis using assms by (simp add: field_simps)
qed

lemma step_to_percentage_bounds:
  assumes k: "1 \<le> k" "k \<le> s" and s: "s \<le> 2 ^ 32"
  shows "\<exists>v. step_to_percentage s k = Inr v \<and>
           (100 * k) div s - 1 \<le> v \<and> v \<le> (100 * k) div s \<and>
           (\<not> s dvd 100 * k \<longrightarrow> v = (100 * k) div s)"
proof -
  define x :: rat where "x = of_int k / of_int s"
  define f where "f = fl x"
  define g where "g = fl (f * 100)"
  define z :: rat where "z = of_int (100 * k) / of_int s"
  define n where "n = (100 * k) div s"
  define \<rho> where "\<rho> = (100 * k) mod s"
  have s0: "0 < s" using k by linarith
  have sr: "(0::rat) < of_int s" using s0 by simp
  have kr: "(1::rat) \<le> of_int k" using k(1) by simp
  have ks: "(of_int k :: rat) \<le> of_int s" using k(2) by (simp only: of_int_le_iff)
  have s32: "(of_int s :: rat) \<le> 2 ^ 32"
  proof -
    have "(of_int s :: rat) \<le> of_int (2 ^ 32)" using s by (simp only: of_int_le_iff)
    then show ?thesis by simp
  qed
  have inv_s: "(1::rat) / 2 ^ 32 \<le> 1 / of_int s"
    using sr s32 by (intro divide_left_mono) simp_all
  have x1: "x \<le> 1" unfolding x_def using sr ks by (simp add: divide_le_eq)
  have x_lo: "1 / of_int s \<le> x" unfolding x_def using sr kr by (intro divide_right_mono) simp_all
  have p32: "(0::rat) < 1 / 2 ^ 32" by simp
  have x0: "0 \<le> x" using x_lo inv_s p32 by linarith
  have x64: "1 / 2 ^ 64 \<le> x" using x_lo inv_s by simp
  have zx: "z = x * 100" by (simp add: z_def x_def)
  have z100: "z \<le> 100" using x1 zx by simp
  have f_lo: "x - x / 2 ^ 53 \<le> f" and f_hi: "f \<le> x + x / 2 ^ 53"
    unfolding f_def using x64 by (rule fl_rel_err')+
  have f0: "0 \<le> f" unfolding f_def using x0 by (rule fl_nonneg)
  have f1: "f \<le> 1" unfolding f_def using fl_le_int[of x 1] x0 x1 by simp
  have f64: "1 / 2 ^ 64 \<le> f * 100" using f_lo x64 by simp
  have g_lo: "f * 100 - f * 100 / 2 ^ 53 \<le> g" and g_hi: "g \<le> f * 100 + f * 100 / 2 ^ 53"
    unfolding g_def using f64 by (rule fl_rel_err')+
  have gz: "z - 300 / 2 ^ 53 \<le> g" "g \<le> z + 300 / 2 ^ 53"
    using g_lo g_hi f_lo f_hi zx z100 x0 by simp_all
  have g0: "0 \<le> g" unfolding g_def using f0 by (intro fl_nonneg) simp
  have td: "int_truediv k s = Inr f"
  proof -
    have "s \<noteq> 0" using s0 by simp
    moreover note x0[unfolded x_def]
    moreover have "x \<le> 2 ^ 53" using x1 by simp
    then have "of_int k / (of_int s :: rat) \<le> 2 ^ 53" unfolding x_def .
    ultimately show ?thesis unfolding f_def x_def by (rule int_truediv_small)
  qed
  have fm: "float_mul_int f 100 = Inr g"
    unfolding g_def using float_mul_int_small[of 100 f] f0 f1 by simp
  have stp: "step_to_percentage s k = Inr \<lfloor>g\<rfloor>"
    using td fm g0 by (simp add: step_to_percentage_def py_int_def)
  have zn: "z = of_int n + of_int \<rho> / of_int s"
    unfolding z_def n_def \<rho>_def using s0 by (rule div_mod_rat)
  have \<rho>: "0 \<le> \<rho>" "\<rho> \<le> s - 1" using s0 by (simp_all add: \<rho>_def)
  have \<rho>s_hi: "of_int \<rho> / of_int s \<le> 1 - 1 / (of_int s :: rat)"
  proof -
    have "(of_int \<rho> :: rat) \<le> of_int (s - 1)" using \<rho>(2) by (simp only: of_int_le_iff)
    then have "(of_int \<rho> :: rat) / of_int s \<le> of_int (s - 1) / of_int s"
      using sr by (intro divide_right_mono) simp_all
    also have "\<dots> = 1 - 1 / of_int s" using sr by (simp add: field_simps)
    finally show ?thesis .
  qed
  have \<rho>s_lo: "0 \<le> of_int \<rho> / (of_int s :: rat)" using \<rho>(1) sr by simp
  have up: "g < of_int n + 1" using gz(2) zn \<rho>s_hi inv_s by simp
  have lo: "of_int n - 1 \<le> g" using gz(1) zn \<rho>s_lo by simp
  have "\<lfloor>g\<rfloor> \<le> n" using up by (simp add: floor_less_iff flip: zle_add1_eq_le)
  moreover have "n - 1 \<le> \<lfloor>g\<rfloor>" using lo by (simp add: le_floor_iff)
  moreover have "\<lfloor>g\<rfloor> = n" if "\<not> s dvd 100 * k"
  proof -
    have "\<rho> \<noteq> 0" using that by (simp add: \<rho>_def dvd_eq_mod_eq_0)
    then have "1 \<le> \<rho>" using \<rho>(1) by simp
    then have "(1::rat) \<le> of_int \<rho>" by simp
    then have "1 / of_int s \<le> of_int \<rho> / (of_int s :: rat)"
      using sr by (intro divide_right_mono) simp_all
    then have "of_int n \<le> g" using gz(1) zn inv_s by simp
    then show ?thesis using up by (simp add: floor_eq_iff)
  qed
  ultimately show ?thesis using stp by (auto simp: n_def)
qed

section \<open>The step the decoder finds\<close>

text \<open>
  For up to \<open>2^32\<close> steps and a raw value in \<open>[1, 65535]\<close> the two roundings in
  \<open>round(raw_value / (65535 / steps))\<close> do not change the result: it is the integer
  nearest to \<open>raw_value * steps / 65535\<close>, which is never a tie.
\<close>

lemma of_int_le_pow: "n \<le> 2 ^ k \<Longrightarrow> (of_int n :: rat) \<le> 2 ^ k"
proof -
  assume "n \<le> 2 ^ k"
  then have "(of_int n :: rat) \<le> of_int (2 ^ k)" by (simp only: of_int_le_iff)
  then show ?thesis by simp
qed

lemma pow2_rat:
  "(2::rat) ^ 19 = 524288" "(2::rat) ^ 32 = 4294967296" "(2::rat) ^ 33 = 8589934592"
  "(2::rat) ^ 53 = 9007199254740992" "(2::rat) ^ 64 = 18446744073709551616"
  by simp_all

lemma nearest_step:
  fixes r s :: int
  defines "n \<equiv> (2 * r * s + 65535) div 131070"
  shows "\<bar>of_int (r * s) / 65535 - (of_int n :: rat)\<bar> \<le> 65534 / 131070"
proof -
  define m where "m = r * s"
  define \<rho> where "\<rho> = (2 * m + 65535) mod 131070"
  have n: "n = (2 * m + 65535) div 131070" by (simp add: n_def m_def)
  have \<rho>b: "0 \<le> \<rho>" "\<rho> < 131070" by (simp_all add: \<rho>_def)
  have dm: "2 * m + 65535 = n * 131070 + \<rho>" by (simp add: n \<rho>_def)
  then have "\<rho> = 2 * (m + 32767 - 65535 * n) + 1" by simp
  then have "odd \<rho>" by simp
  then have "\<rho> \<noteq> 0" by auto
  then have \<rho>: "1 \<le> \<rho>" "\<rho> \<le> 131069" using \<rho>b by simp_all
  from dm have "(of_int (2 * m + 65535) :: rat) = of_int (n * 131070 + \<rho>)" by simp
  then have eq: "2 * (of_int m :: rat) + 65535 = of_int n * 131070 + of_int \<rho>" by simp
  have "(1::rat) \<le> of_int \<rho>" "(of_int \<rho> :: rat) \<le> 131069" using \<rho> by simp_all
  with eq have "\<bar>(of_int m :: rat) / 65535 - of_int n\<bar> \<le> 65534 / 131070" by (simp add: field_simps abs_le_iff)
  then show ?thesis by (simp add: m_def)
qed

lemma current_step_exact:
  assumes s: "1 \<le> s" "s \<le> 2 ^ 32" and r: "1 \<le> r" "r \<le> 65535"
  shows "current_step s r = Inr (min s (max 1 ((2 * r * s + 65535) div 131070)))"
proof -
  define a :: rat where "a = 65535 / of_int s"
  define ss where "ss = fl a"
  define t :: rat where "t = of_int (r * s) / 65535"
  define x where "x = of_int r / ss"
  define y where "y = fl x"
  define n where "n = (2 * r * s + 65535) div 131070"
  have sr: "(1::rat) \<le> of_int s" using s(1) by simp
  have s32: "(of_int s :: rat) \<le> 2 ^ 32" using s(2) by (rule of_int_le_pow)
  have rr: "(1::rat) \<le> of_int r" "(of_int r :: rat) \<le> 65535" using r by simp_all
  have a_hi: "a \<le> 65535" unfolding a_def using sr by (simp add: divide_le_eq)
  have a_lo: "65535 / 2 ^ 32 \<le> a" unfolding a_def using sr s32
    by (intro divide_left_mono) simp_all
  have a0: "0 < a" using a_lo by simp
  have a64: "1 / 2 ^ 64 \<le> a" using a_lo by simp
  have ss_lo: "a - a / 2 ^ 53 \<le> ss" and ss_hi: "ss \<le> a + a / 2 ^ 53"
    unfolding ss_def using a64 by (rule fl_rel_err')+
  have ss0: "0 < ss" using ss_lo a0 by simp
  have ta: "t * a = of_int r" unfolding t_def a_def using sr by simp
  have t0: "0 \<le> t" unfolding t_def using r(1) s(1) by simp
  have t_lo: "1 / 65535 \<le> t"
  proof -
    have "1 * 1 \<le> r * s" using r(1) s(1) by (intro mult_mono) simp_all
    then have "(of_int (1::int) :: rat) \<le> of_int (r * s)" by (simp only: of_int_le_iff mult_1)
    then have "(1::rat) \<le> of_int (r * s)" by (simp only: of_int_1)
    then show ?thesis unfolding t_def by (intro divide_right_mono) simp_all
  qed
  have t_hi: "t \<le> 2 ^ 32"
  proof -
    have "of_int r * (of_int s :: rat) \<le> 65535 * 2 ^ 32" using rr sr s32
      by (intro mult_mono) simp_all
    then show ?thesis unfolding t_def by (simp add: divide_le_eq)
  qed
  have x_hi: "x \<le> t + 2 * t / 2 ^ 53"
  proof -
    have "(t + 2 * t / 2 ^ 53) * (a - a / 2 ^ 53) \<le> (t + 2 * t / 2 ^ 53) * ss"
      using ss_lo t0 by (intro mult_left_mono) simp_all
    moreover have "(t + 2 * t / 2 ^ 53) * (a - a / 2 ^ 53) = (t * a) * ((1 + 2 / 2 ^ 53) * (1 - 1 / 2 ^ 53))"
      by (simp add: algebra_simps)
    moreover have "of_int r \<le> of_int r * ((1 + 2 / 2 ^ 53) * (1 - 1 / 2 ^ 53) :: rat)"
      using rr(1) by simp
    ultimately have "of_int r \<le> (t + 2 * t / 2 ^ 53) * ss" by (simp only: ta)
    then show ?thesis unfolding x_def using ss0 by (simp add: divide_le_eq)
  qed
  have x_lo: "t - t / 2 ^ 53 \<le> x"
  proof -
    have "(t - t / 2 ^ 53) * ss \<le> (t - t / 2 ^ 53) * (a + a / 2 ^ 53)"
      using ss_hi t0 by (intro mult_left_mono) simp_all
    moreover have "(t - t / 2 ^ 53) * (a + a / 2 ^ 53) = (t * a) * ((1 - 1 / 2 ^ 53) * (1 + 1 / 2 ^ 53))"
      by (simp add: algebra_simps)
    moreover have "of_int r * ((1 - 1 / 2 ^ 53) * (1 + 1 / 2 ^ 53) :: rat) \<le> of_int r"
      using rr(1) by simp
    ultimately have "(t - t / 2 ^ 53) * ss \<le> of_int r" by (simp only: ta)
    then show ?thesis unfolding x_def using ss0 by (simp add: le_divide_eq)
  qed
  have x64: "1 / 2 ^ 64 \<le> x" using x_lo t_lo unfolding pow2_rat by linarith
  have y_lo: "x - x / 2 ^ 53 \<le> y" and y_hi: "y \<le> x + x / 2 ^ 53"
    unfolding y_def using x64 by (rule fl_rel_err')+
  have yt: "\<bar>y - t\<bar> \<le> 1 / 2 ^ 19"
    using y_lo y_hi x_lo x_hi t0 t_hi unfolding pow2_rat by linarith
  have tn: "\<bar>t - of_int n\<bar> \<le> 65534 / 131070" unfolding t_def n_def by (rule nearest_step)
  have "\<bar>y - of_int n\<bar> < 1 / 2" using yt tn unfolding pow2_rat by linarith
  then have pr: "py_round y = n" by (rule py_round_near)
  have y0: "0 \<le> y" using y_lo x64 unfolding pow2_rat by linarith
  have y53: "y \<le> 2 ^ 53" using yt t_hi unfolding pow2_rat by linarith
  have td: "int_truediv 65535 s = Inr ss"
  proof -
    have "s \<noteq> 0" using s(1) by simp
    moreover have "0 \<le> of_int 65535 / (of_int s :: rat)" using a0 by (simp add: a_def)
    moreover have "of_int 65535 / (of_int s :: rat) \<le> 2 ^ 53" using a_hi by (simp add: a_def)
    ultimately have "int_truediv 65535 s = Inr (fl (of_int 65535 / of_int s))"
      by (rule int_truediv_small)
    then show ?thesis by (simp add: ss_def a_def)
  qed
  have df: "int_div_float r ss = Inr y"
    using r ss0 y0 y53
    by (simp add: int_div_float_def int_to_float_small float_truediv_def
        finite_or_raise_small y_def x_def)
  show ?thesis using td df pr by (simp add: current_step_def n_def)
qed

section \<open>Scaling and truncating\<close>

text \<open>
  \<open>int((k / s) * c)\<close> is the shape of the stepless encoder (\<open>p / 100 * 65535\<close>), of the
  stepless decoder (\<open>r / 65535 * 100\<close>) and of the step percentage (\<open>k / s * 100\<close>).
  The two roundings leave the truncated result at the floor of \<open>k * c / s\<close>, except
  possibly where \<open>k * c / s\<close> is itself an integer, where it can be one less.
\<close>

lemma fl_scale_floor:
  assumes k: "1 \<le> k" "k \<le> s" and s: "s \<le> 2 ^ 32" and c: "1 \<le> c" "c \<le> 65535"
  defines "f \<equiv> fl (of_int k / of_int s)"
  defines "g \<equiv> fl (f * of_int c)"
  shows "0 \<le> f \<and> f \<le> 1 \<and> 0 \<le> g \<and> g \<le> 2 ^ 53 \<and>
         (k * c) div s - 1 \<le> \<lfloor>g\<rfloor> \<and> \<lfloor>g\<rfloor> \<le> (k * c) div s \<and>
         (\<not> s dvd k * c \<longrightarrow> \<lfloor>g\<rfloor> = (k * c) div s)"
proof -
  define x :: rat where "x = of_int k / of_int s"
  define z :: rat where "z = of_int (k * c) / of_int s"
  define w where "w = f * of_int c"
  define n where "n = (k * c) div s"
  define \<rho> where "\<rho> = (k * c) mod s"
  have s0: "0 < s" using k by linarith
  have sr: "(0::rat) < of_int s" using s0 by simp
  have kr: "(1::rat) \<le> of_int k" using k(1) by simp
  have ks: "(of_int k :: rat) \<le> of_int s" using k(2) by (simp only: of_int_le_iff)
  have cr: "(1::rat) \<le> of_int c" "(of_int c :: rat) \<le> 65535" using c by simp_all
  have s32: "(of_int s :: rat) \<le> 2 ^ 32" using s by (rule of_int_le_pow)
  have inv_s: "(1::rat) / 2 ^ 32 \<le> 1 / of_int s"
    using sr s32 by (intro divide_left_mono) simp_all
  have x1: "x \<le> 1" unfolding x_def using sr ks by (simp add: divide_le_eq)
  have x_lo: "1 / of_int s \<le> x" unfolding x_def using sr kr by (intro divide_right_mono) simp_all
  have x32: "1 / 2 ^ 32 \<le> x" using x_lo inv_s by linarith
  have x64: "1 / 2 ^ 64 \<le> x" using x32 unfolding pow2_rat by linarith
  have x0: "0 \<le> x" using x64 unfolding pow2_rat by linarith
  have zx: "z = x * of_int c" by (simp add: z_def x_def)
  have z_hi: "z \<le> 65535"
  proof -
    have "x * of_int c \<le> 1 * 65535" using x0 x1 cr by (intro mult_mono) simp_all
    then show ?thesis by (simp add: zx)
  qed
  have z_lo: "x \<le> z"
  proof -
    have "x * 1 \<le> x * of_int c" using x0 cr(1) by (intro mult_left_mono) simp_all
    then show ?thesis by (simp add: zx)
  qed
  have f_lo: "x - x / 2 ^ 53 \<le> f" and f_hi: "f \<le> x + x / 2 ^ 53"
    unfolding f_def x_def[symmetric] using x64 by (rule fl_rel_err')+
  have f0: "0 \<le> f" unfolding f_def x_def[symmetric] using x0 by (rule fl_nonneg)
  have f1: "f \<le> 1" unfolding f_def x_def[symmetric] using fl_le_int[of x 1] x0 x1 by simp
  have w_lo: "z - z / 2 ^ 53 \<le> w"
  proof -
    have "(x - x / 2 ^ 53) * of_int c \<le> f * of_int c"
      using f_lo cr(1) by (intro mult_right_mono) simp_all
    then show ?thesis by (simp add: w_def zx algebra_simps)
  qed
  have w_hi: "w \<le> z + z / 2 ^ 53"
  proof -
    have "f * of_int c \<le> (x + x / 2 ^ 53) * of_int c"
      using f_hi cr(1) by (intro mult_right_mono) simp_all
    then show ?thesis by (simp add: w_def zx algebra_simps)
  qed
  have w64: "1 / 2 ^ 64 \<le> w" using w_lo z_lo x32 unfolding pow2_rat by linarith
  have g_lo: "w - w / 2 ^ 53 \<le> g" and g_hi: "g \<le> w + w / 2 ^ 53"
    unfolding g_def w_def[symmetric] using w64 by (rule fl_rel_err')+
  have gz: "z - 1 / 2 ^ 33 \<le> g" "g \<le> z + 1 / 2 ^ 33"
    using g_lo g_hi w_lo w_hi z_hi z_lo x0 unfolding pow2_rat by linarith+
  have g0: "0 \<le> g" using g_lo w64 unfolding pow2_rat by linarith
  have g53: "g \<le> 2 ^ 53" using gz(2) z_hi unfolding pow2_rat by linarith
  have zn: "z = of_int n + of_int \<rho> / of_int s"
    unfolding z_def n_def \<rho>_def using s0 by (rule div_mod_rat)
  have \<rho>: "0 \<le> \<rho>" "\<rho> \<le> s - 1" using s0 by (simp_all add: \<rho>_def)
  have \<rho>s_hi: "of_int \<rho> / of_int s \<le> 1 - 1 / (of_int s :: rat)"
  proof -
    have "(of_int \<rho> :: rat) \<le> of_int (s - 1)" using \<rho>(2) by (simp only: of_int_le_iff)
    then have "(of_int \<rho> :: rat) / of_int s \<le> of_int (s - 1) / of_int s"
      using sr by (intro divide_right_mono) simp_all
    also have "\<dots> = 1 - 1 / of_int s" using sr by (simp add: field_simps)
    finally show ?thesis .
  qed
  have \<rho>s_lo: "0 \<le> of_int \<rho> / (of_int s :: rat)" using \<rho>(1) sr by simp
  have up: "g < of_int n + 1" using gz(2) zn \<rho>s_hi inv_s unfolding pow2_rat by linarith
  have lo: "of_int n - 1 \<le> g" using gz(1) zn \<rho>s_lo unfolding pow2_rat by linarith
  have "\<lfloor>g\<rfloor> \<le> n" using up by (simp add: floor_less_iff flip: zle_add1_eq_le)
  moreover have "n - 1 \<le> \<lfloor>g\<rfloor>" using lo by (simp add: le_floor_iff)
  moreover have "\<lfloor>g\<rfloor> = n" if "\<not> s dvd k * c"
  proof -
    have "\<rho> \<noteq> 0" using that by (simp add: \<rho>_def dvd_eq_mod_eq_0)
    then have "1 \<le> \<rho>" using \<rho>(1) by simp
    then have "(1::rat) \<le> of_int \<rho>" by simp
    then have "1 / of_int s \<le> of_int \<rho> / (of_int s :: rat)"
      using sr by (intro divide_right_mono) simp_all
    then have "of_int n \<le> g" using gz(1) zn inv_s unfolding pow2_rat by linarith
    then show ?thesis using up by (simp add: floor_eq_iff)
  qed
  ultimately show ?thesis using f0 f1 g0 g53 by (simp add: n_def)
qed

text \<open>The inputs where the exact value is an integer, each evaluated.\<close>

lemma stepless_percentage_13107: "stepless_percentage 13107 = Inr 20"
proof -
  have f1: "fl (1 / 5) = 3602879701896397 / 18014398509481984"
    using fl_eqI[of "- 3" "1 / 5" 7205759403792794] by (simp add: power_int_minus)
  have f2: "fl (90071992547409925 / 4503599627370496) = 20"
    using fl_eqI[of 4 "90071992547409925 / 4503599627370496" 5629499534213120] by (simp add: power_int_minus)
  show ?thesis
    by (simp add: stepless_percentage_def int_truediv_def float_mul_int_def float_mul_def
        int_to_float_small finite_or_raise_small fl_numeral fl_one f1 f2)
qed

lemma stepless_percentage_26214: "stepless_percentage 26214 = Inr 40"
proof -
  have f1: "fl (2 / 5) = 3602879701896397 / 9007199254740992"
    using fl_eqI[of "- 2" "2 / 5" 7205759403792794] by (simp add: power_int_minus)
  have f2: "fl (90071992547409925 / 2251799813685248) = 40"
    using fl_eqI[of 5 "90071992547409925 / 2251799813685248" 5629499534213120] by (simp add: power_int_minus)
  show ?thesis
    by (simp add: stepless_percentage_def int_truediv_def float_mul_int_def float_mul_def
        int_to_float_small finite_or_raise_small fl_numeral fl_one f1 f2)
qed

lemma stepless_percentage_39321: "stepless_percentage 39321 = Inr 60"
proof -
  have f1: "fl (3 / 5) = 5404319552844595 / 9007199254740992"
    using fl_eqI[of "- 1" "3 / 5" 5404319552844595] by (simp add: power_int_minus)
  have f2: "fl (135107988821114875 / 2251799813685248) = 60"
    using fl_eqI[of 5 "135107988821114875 / 2251799813685248" 8444249301319680] by (simp add: power_int_minus)
  show ?thesis
    by (simp add: stepless_percentage_def int_truediv_def float_mul_int_def float_mul_def
        int_to_float_small finite_or_raise_small fl_numeral fl_one f1 f2)
qed

lemma stepless_percentage_52428: "stepless_percentage 52428 = Inr 80"
proof -
  have f1: "fl (4 / 5) = 3602879701896397 / 4503599627370496"
    using fl_eqI[of "- 1" "4 / 5" 7205759403792794] by (simp add: power_int_minus)
  have f2: "fl (90071992547409925 / 1125899906842624) = 80"
    using fl_eqI[of 6 "90071992547409925 / 1125899906842624" 5629499534213120] by (simp add: power_int_minus)
  show ?thesis
    by (simp add: stepless_percentage_def int_truediv_def float_mul_int_def float_mul_def
        int_to_float_small finite_or_raise_small fl_numeral fl_one f1 f2)
qed

lemma stepless_percentage_65535: "stepless_percentage 65535 = Inr 100"
  by (simp add: stepless_percentage_def int_truediv_def float_mul_int_def float_mul_def
      int_to_float_small finite_or_raise_small fl_numeral fl_one)

lemma analog_value_None_20: "analog_value None 20 = Inr 13107"
proof -
  have f1: "fl (1 / 5) = 3602879701896397 / 18014398509481984"
    using fl_eqI[of "- 3" "1 / 5" 7205759403792794] by (simp add: power_int_minus)
  have f2: "fl (236114721263780377395 / 18014398509481984) = 13107"
    using fl_eqI[of 13 "236114721263780377395 / 18014398509481984" 7205649452630016] by (simp add: power_int_minus)
  show ?thesis
    by (simp add: analog_value_def target_step_def int_truediv_def float_mul_int_def float_mul_def
        int_to_float_small finite_or_raise_small fl_numeral fl_one f1 f2)
qed

lemma analog_value_None_40: "analog_value None 40 = Inr 26214"
proof -
  have f1: "fl (2 / 5) = 3602879701896397 / 9007199254740992"
    using fl_eqI[of "- 2" "2 / 5" 7205759403792794] by (simp add: power_int_minus)
  have f2: "fl (236114721263780377395 / 9007199254740992) = 26214"
    using fl_eqI[of 14 "236114721263780377395 / 9007199254740992" 7205649452630016] by (simp add: power_int_minus)
  show ?thesis
    by (simp add: analog_value_def target_step_def int_truediv_def float_mul_int_def float_mul_def
        int_to_float_small finite_or_raise_small fl_numeral fl_one f1 f2)
qed

lemma analog_value_None_60: "analog_value None 60 = Inr 39321"
proof -
  have f1: "fl (3 / 5) = 5404319552844595 / 9007199254740992"
    using fl_eqI[of "- 1" "3 / 5" 5404319552844595] by (simp add: power_int_minus)
  have f2: "fl (354172081895670533325 / 9007199254740992) = 39321"
    using fl_eqI[of 15 "354172081895670533325 / 9007199254740992" 5404237089472512] by (simp add: power_int_minus)
  show ?thesis
    by (simp add: analog_value_def target_step_def int_truediv_def float_mul_int_def float_mul_def
        int_to_float_small finite_or_raise_small fl_numeral fl_one f1 f2)
qed

lemma analog_value_None_80: "analog_value None 80 = Inr 52428"
proof -
  have f1: "fl (4 / 5) = 3602879701896397 / 4503599627370496"
    using fl_eqI[of "- 1" "4 / 5" 7205759403792794] by (simp add: power_int_minus)
  have f2: "fl (236114721263780377395 / 4503599627370496) = 52428"
    using fl_eqI[of 15 "236114721263780377395 / 4503599627370496" 7205649452630016] by (simp add: power_int_minus)
  show ?thesis
    by (simp add: analog_value_def target_step_def int_truediv_def float_mul_int_def float_mul_def
        int_to_float_small finite_or_raise_small fl_numeral fl_one f1 f2)
qed

lemma analog_value_None_100: "analog_value None 100 = Inr 65535"
  by (simp add: analog_value_def target_step_def int_truediv_def float_mul_int_def float_mul_def
      int_to_float_small finite_or_raise_small fl_numeral fl_one)

lemma step_to_percentage_1_1: "step_to_percentage 1 1 = Inr 100"
  by (simp add: step_to_percentage_def int_truediv_def float_mul_int_def float_mul_def
      int_to_float_small finite_or_raise_small fl_numeral fl_one)

lemma step_to_percentage_2_1: "step_to_percentage 2 1 = Inr 50"
proof -
  have f1: "fl (1 / 2) = 1 / 2"
    using fl_eqI[of "- 1" "1 / 2" 4503599627370496] by (simp add: power_int_minus)
  show ?thesis
    by (simp add: step_to_percentage_def int_truediv_def float_mul_int_def float_mul_def
        int_to_float_small finite_or_raise_small fl_numeral fl_one f1)
qed

lemma step_to_percentage_4_1: "step_to_percentage 4 1 = Inr 25"
proof -
  have f1: "fl (1 / 4) = 1 / 4"
    using fl_eqI[of "- 2" "1 / 4" 4503599627370496] by (simp add: power_int_minus)
  show ?thesis
    by (simp add: step_to_percentage_def int_truediv_def float_mul_int_def float_mul_def
        int_to_float_small finite_or_raise_small fl_numeral fl_one f1)
qed

lemma step_to_percentage_5_1: "step_to_percentage 5 1 = Inr 20"
proof -
  have f1: "fl (1 / 5) = 3602879701896397 / 18014398509481984"
    using fl_eqI[of "- 3" "1 / 5" 7205759403792794] by (simp add: power_int_minus)
  have f2: "fl (90071992547409925 / 4503599627370496) = 20"
    using fl_eqI[of 4 "90071992547409925 / 4503599627370496" 5629499534213120] by (simp add: power_int_minus)
  show ?thesis
    by (simp add: step_to_percentage_def int_truediv_def float_mul_int_def float_mul_def
        int_to_float_small finite_or_raise_small fl_numeral fl_one f1 f2)
qed

lemma step_to_percentage_10_1: "step_to_percentage 10 1 = Inr 10"
proof -
  have f1: "fl (1 / 10) = 3602879701896397 / 36028797018963968"
    using fl_eqI[of "- 4" "1 / 10" 7205759403792794] by (simp add: power_int_minus)
  have f2: "fl (90071992547409925 / 9007199254740992) = 10"
    using fl_eqI[of 3 "90071992547409925 / 9007199254740992" 5629499534213120] by (simp add: power_int_minus)
  show ?thesis
    by (simp add: step_to_percentage_def int_truediv_def float_mul_int_def float_mul_def
        int_to_float_small finite_or_raise_small fl_numeral fl_one f1 f2)
qed

lemma step_to_percentage_20_1: "step_to_percentage 20 1 = Inr 5"
proof -
  have f1: "fl (1 / 20) = 3602879701896397 / 72057594037927936"
    using fl_eqI[of "- 5" "1 / 20" 7205759403792794] by (simp add: power_int_minus)
  have f2: "fl (90071992547409925 / 18014398509481984) = 5"
    using fl_eqI[of 2 "90071992547409925 / 18014398509481984" 5629499534213120] by (simp add: power_int_minus)
  show ?thesis
    by (simp add: step_to_percentage_def int_truediv_def float_mul_int_def float_mul_def
        int_to_float_small finite_or_raise_small fl_numeral fl_one f1 f2)
qed

lemma step_to_percentage_25_1: "step_to_percentage 25 1 = Inr 4"
proof -
  have f1: "fl (1 / 25) = 5764607523034235 / 144115188075855872"
    using fl_eqI[of "- 5" "1 / 25" 5764607523034235] by (simp add: power_int_minus)
  have f2: "fl (144115188075855875 / 36028797018963968) = 4"
    using fl_eqI[of 2 "144115188075855875 / 36028797018963968" 4503599627370496] by (simp add: power_int_minus)
  show ?thesis
    by (simp add: step_to_percentage_def int_truediv_def float_mul_int_def float_mul_def
        int_to_float_small finite_or_raise_small fl_numeral fl_one f1 f2)
qed

lemma step_to_percentage_50_1: "step_to_percentage 50 1 = Inr 2"
proof -
  have f1: "fl (1 / 50) = 5764607523034235 / 288230376151711744"
    using fl_eqI[of "- 6" "1 / 50" 5764607523034235] by (simp add: power_int_minus)
  have f2: "fl (144115188075855875 / 72057594037927936) = 2"
    using fl_eqI[of 1 "144115188075855875 / 72057594037927936" 4503599627370496] by (simp add: power_int_minus)
  show ?thesis
    by (simp add: step_to_percentage_def int_truediv_def float_mul_int_def float_mul_def
        int_to_float_small finite_or_raise_small fl_numeral fl_one f1 f2)
qed

lemma step_to_percentage_100_1: "step_to_percentage 100 1 = Inr 1"
proof -
  have f1: "fl (1 / 100) = 5764607523034235 / 576460752303423488"
    using fl_eqI[of "- 7" "1 / 100" 5764607523034235] by (simp add: power_int_minus)
  have f2: "fl (144115188075855875 / 144115188075855872) = 1"
    using fl_eqI[of 0 "144115188075855875 / 144115188075855872" 4503599627370496] by (simp add: power_int_minus)
  show ?thesis
    by (simp add: step_to_percentage_def int_truediv_def float_mul_int_def float_mul_def
        int_to_float_small finite_or_raise_small fl_numeral fl_one f1 f2)
qed

text \<open>Which inputs these are, and the exact results for all inputs.\<close>

lemma dvd_20_of_13107:
  fixes q :: int
  assumes "20 dvd 13107 * q"
  shows "20 dvd q"
proof -
  have "(20::int) dvd 20 * (1966 * q)" by (rule dvd_triv_left)
  moreover have "20 dvd 3 * (13107 * q)" using assms by (rule dvd_mult)
  ultimately have "20 dvd 3 * (13107 * q) - 20 * (1966 * q)" by (rule dvd_diff[rotated])
  moreover have "3 * (13107 * q) - 20 * (1966 * q) = q" by simp
  ultimately show ?thesis by simp
qed

lemma multiples_of_13107:
  fixes r :: int
  assumes "65535 dvd r * 100" "1 \<le> r" "r \<le> 65535"
  shows "r = 13107 \<or> r = 26214 \<or> r = 39321 \<or> r = 52428 \<or> r = 65535"
proof -
  from assms(1) obtain q where q: "r * 100 = 65535 * q" by (rule dvdE)
  then have e: "20 * r = 13107 * q" by simp
  then have "20 dvd 13107 * q" by (metis dvd_triv_left)
  then have "20 dvd q" by (rule dvd_20_of_13107)
  then obtain j where j: "q = 20 * j" by (rule dvdE)
  with e have r: "r = 13107 * j" by simp
  with assms(2,3) have "1 \<le> j" "j \<le> 5" by simp_all
  then have "j = 1 \<or> j = 2 \<or> j = 3 \<or> j = 4 \<or> j = 5" by linarith
  then show ?thesis using r by auto
qed

lemma multiples_of_20:
  fixes p :: int
  assumes "100 dvd p * 65535" "1 \<le> p" "p \<le> 100"
  shows "p = 20 \<or> p = 40 \<or> p = 60 \<or> p = 80 \<or> p = 100"
proof -
  from assms(1) obtain q where q: "p * 65535 = 100 * q" by (rule dvdE)
  then have e: "13107 * p = 20 * q" by simp
  then have "20 dvd 13107 * p" by (metis dvd_triv_left)
  then have "20 dvd p" by (rule dvd_20_of_13107)
  then obtain j where j: "p = 20 * j" by (rule dvdE)
  with assms(2,3) have "1 \<le> j" "j \<le> 5" by simp_all
  then have "j = 1 \<or> j = 2 \<or> j = 3 \<or> j = 4 \<or> j = 5" by linarith
  then show ?thesis using j by auto
qed

lemma divisors_of_100:
  fixes s :: int
  assumes "s dvd 100" "1 \<le> s" "s \<le> 100"
  shows "s = 1 \<or> s = 2 \<or> s = 4 \<or> s = 5 \<or> s = 10 \<or> s = 20 \<or> s = 25 \<or> s = 50 \<or> s = 100"
proof -
  have "s \<in> {1..100}" using assms(2,3) by simp
  then show ?thesis using assms(1) by (simp add: simp_from_to) (elim disjE; simp)
qed

lemma stepless_percentage_exact:
  assumes "1 \<le> r" "r \<le> 65535"
  shows "stepless_percentage r = Inr (max 1 (min 100 ((r * 100) div 65535)))"
proof (cases "65535 dvd r * 100")
  case True
  then have "r = 13107 \<or> r = 26214 \<or> r = 39321 \<or> r = 52428 \<or> r = 65535"
    using assms by (rule multiples_of_13107)
  then show ?thesis
    by (elim disjE)
      (simp_all add: stepless_percentage_13107 stepless_percentage_26214
        stepless_percentage_39321 stepless_percentage_52428 stepless_percentage_65535)
next
  case False
  define f where "f = fl (of_int r / of_int 65535)"
  define g where "g = fl (f * of_int 100)"
  have b: "0 \<le> f \<and> f \<le> 1 \<and> 0 \<le> g \<and> g \<le> 2 ^ 53 \<and>
         (r * 100) div 65535 - 1 \<le> \<lfloor>g\<rfloor> \<and> \<lfloor>g\<rfloor> \<le> (r * 100) div 65535 \<and>
         (\<not> 65535 dvd r * 100 \<longrightarrow> \<lfloor>g\<rfloor> = (r * 100) div 65535)"
    unfolding g_def f_def using assms by (intro fl_scale_floor) simp_all
  have td: "int_truediv r 65535 = Inr f"
    using b by (simp add: int_truediv_def finite_or_raise_small f_def)
  have fm: "float_mul_int f 100 = Inr g"
    using b by (simp add: float_mul_int_def float_mul_def int_to_float_small
        finite_or_raise_small g_def)
  show ?thesis using td fm b False by (simp add: stepless_percentage_def py_int_def)
qed

lemma analog_value_stepless_exact:
  assumes "1 \<le> p" "p \<le> 100"
  shows "analog_value None p = Inr ((p * 65535) div 100)"
proof (cases "100 dvd p * 65535")
  case True
  then have "p = 20 \<or> p = 40 \<or> p = 60 \<or> p = 80 \<or> p = 100"
    using assms by (rule multiples_of_20)
  then show ?thesis
    by (elim disjE)
      (simp_all add: analog_value_None_20 analog_value_None_40 analog_value_None_60
        analog_value_None_80 analog_value_None_100)
next
  case False
  define f where "f = fl (of_int p / of_int 100)"
  define g where "g = fl (f * of_int 65535)"
  have b: "0 \<le> f \<and> f \<le> 1 \<and> 0 \<le> g \<and> g \<le> 2 ^ 53 \<and>
         (p * 65535) div 100 - 1 \<le> \<lfloor>g\<rfloor> \<and> \<lfloor>g\<rfloor> \<le> (p * 65535) div 100 \<and>
         (\<not> 100 dvd p * 65535 \<longrightarrow> \<lfloor>g\<rfloor> = (p * 65535) div 100)"
    unfolding g_def f_def using assms by (intro fl_scale_floor) simp_all
  have td: "int_truediv p 100 = Inr f"
    using b by (simp add: int_truediv_def finite_or_raise_small f_def)
  have fm: "float_mul_int f 65535 = Inr g"
    using b by (simp add: float_mul_int_def float_mul_def int_to_float_small
        finite_or_raise_small g_def)
  show ?thesis using td fm b False by (simp add: analog_value_def py_int_def)
qed

lemma step_to_percentage_first:
  assumes "1 \<le> s" "s \<le> 100"
  shows "step_to_percentage s 1 = Inr (100 div s)"
proof (cases "s dvd 100")
  case True
  then have "s = 1 \<or> s = 2 \<or> s = 4 \<or> s = 5 \<or> s = 10 \<or> s = 20 \<or> s = 25 \<or> s = 50 \<or> s = 100"
    using assms by (rule divisors_of_100)
  then show ?thesis
    by (elim disjE)
      (simp_all add: step_to_percentage_1_1 step_to_percentage_2_1 step_to_percentage_4_1
        step_to_percentage_5_1 step_to_percentage_10_1 step_to_percentage_20_1
        step_to_percentage_25_1 step_to_percentage_50_1 step_to_percentage_100_1)
next
  case False
  have "s \<le> 2 ^ 32" using assms(2) by simp
  with assms(1) have "\<exists>v. step_to_percentage s 1 = Inr v \<and>
           (100 * 1) div s - 1 \<le> v \<and> v \<le> (100 * 1) div s \<and>
           (\<not> s dvd 100 * 1 \<longrightarrow> v = (100 * 1) div s)"
    by (intro step_to_percentage_bounds) simp_all
  then show ?thesis using False by auto
qed

section \<open>The percentage of a step\<close>

text \<open>
  \<open>int((step / steps) * 100)\<close> where \<open>100 * step / steps\<close> is an integer \<open>j\<close>: the quotient
  \<open>step / steps\<close> is the double nearest to \<open>j / 100\<close>, whatever the step count, so the
  result is the one for \<open>j\<close> of 100 steps.  Each of the 100 values is evaluated.  The result
  is \<open>j\<close>, except for 29, 57 and 58, where the product falls just below the integer and
  the truncation gives one less.
\<close>

lemma step_to_percentage_100_2: "step_to_percentage 100 2 = Inr 2"
proof -
  have f1: "fl (1 / 50) = 5764607523034235 / 288230376151711744"
    using fl_eqI[of "- 6" "1 / 50" 5764607523034235] by (simp add: power_int_minus)
  have f2: "fl (144115188075855875 / 72057594037927936) = 2"
    using fl_eqI[of 1 "144115188075855875 / 72057594037927936" 4503599627370496] by (simp add: power_int_minus)
  show ?thesis
    by (simp add: step_to_percentage_def int_truediv_def float_mul_int_def float_mul_def
        int_to_float_small finite_or_raise_small fl_numeral fl_one f1 f2)
qed

lemma step_to_percentage_100_3: "step_to_percentage 100 3 = Inr 3"
proof -
  have f1: "fl (3 / 100) = 1080863910568919 / 36028797018963968"
    using fl_eqI[of "- 6" "3 / 100" 8646911284551352] by (simp add: power_int_minus)
  have f2: "fl (27021597764222975 / 9007199254740992) = 3"
    using fl_eqI[of 1 "27021597764222975 / 9007199254740992" 6755399441055744] by (simp add: power_int_minus)
  show ?thesis
    by (simp add: step_to_percentage_def int_truediv_def float_mul_int_def float_mul_def
        int_to_float_small finite_or_raise_small fl_numeral fl_one f1 f2)
qed

lemma step_to_percentage_100_4: "step_to_percentage 100 4 = Inr 4"
proof -
  have f1: "fl (1 / 25) = 5764607523034235 / 144115188075855872"
    using fl_eqI[of "- 5" "1 / 25" 5764607523034235] by (simp add: power_int_minus)
  have f2: "fl (144115188075855875 / 36028797018963968) = 4"
    using fl_eqI[of 2 "144115188075855875 / 36028797018963968" 4503599627370496] by (simp add: power_int_minus)
  show ?thesis
    by (simp add: step_to_percentage_def int_truediv_def float_mul_int_def float_mul_def
        int_to_float_small finite_or_raise_small fl_numeral fl_one f1 f2)
qed

lemma step_to_percentage_100_5: "step_to_percentage 100 5 = Inr 5"
proof -
  have f1: "fl (1 / 20) = 3602879701896397 / 72057594037927936"
    using fl_eqI[of "- 5" "1 / 20" 7205759403792794] by (simp add: power_int_minus)
  have f2: "fl (90071992547409925 / 18014398509481984) = 5"
    using fl_eqI[of 2 "90071992547409925 / 18014398509481984" 5629499534213120] by (simp add: power_int_minus)
  show ?thesis
    by (simp add: step_to_percentage_def int_truediv_def float_mul_int_def float_mul_def
        int_to_float_small finite_or_raise_small fl_numeral fl_one f1 f2)
qed

lemma step_to_percentage_100_6: "step_to_percentage 100 6 = Inr 6"
proof -
  have f1: "fl (3 / 50) = 1080863910568919 / 18014398509481984"
    using fl_eqI[of "- 5" "3 / 50" 8646911284551352] by (simp add: power_int_minus)
  have f2: "fl (27021597764222975 / 4503599627370496) = 6"
    using fl_eqI[of 2 "27021597764222975 / 4503599627370496" 6755399441055744] by (simp add: power_int_minus)
  show ?thesis
    by (simp add: step_to_percentage_def int_truediv_def float_mul_int_def float_mul_def
        int_to_float_small finite_or_raise_small fl_numeral fl_one f1 f2)
qed

lemma step_to_percentage_100_7: "step_to_percentage 100 7 = Inr 7"
proof -
  have f1: "fl (7 / 100) = 1261007895663739 / 18014398509481984"
    using fl_eqI[of "- 4" "7 / 100" 5044031582654956] by (simp add: power_int_minus)
  have f2: "fl (31525197391593475 / 4503599627370496) = 7881299347898369 / 1125899906842624"
    using fl_eqI[of 2 "31525197391593475 / 4503599627370496" 7881299347898369] by (simp add: power_int_minus)
  have t3: "py_int (7881299347898369 / 1125899906842624) = 7"
    by (rule py_int_eqI) simp_all
  show ?thesis
    by (simp add: step_to_percentage_def int_truediv_def float_mul_int_def float_mul_def
        int_to_float_small finite_or_raise_small fl_numeral fl_one f1 f2 t3)
qed

lemma step_to_percentage_100_8: "step_to_percentage 100 8 = Inr 8"
proof -
  have f1: "fl (2 / 25) = 5764607523034235 / 72057594037927936"
    using fl_eqI[of "- 4" "2 / 25" 5764607523034235] by (simp add: power_int_minus)
  have f2: "fl (144115188075855875 / 18014398509481984) = 8"
    using fl_eqI[of 3 "144115188075855875 / 18014398509481984" 4503599627370496] by (simp add: power_int_minus)
  show ?thesis
    by (simp add: step_to_percentage_def int_truediv_def float_mul_int_def float_mul_def
        int_to_float_small finite_or_raise_small fl_numeral fl_one f1 f2)
qed

lemma step_to_percentage_100_9: "step_to_percentage 100 9 = Inr 9"
proof -
  have f1: "fl (9 / 100) = 3242591731706757 / 36028797018963968"
    using fl_eqI[of "- 4" "9 / 100" 6485183463413514] by (simp add: power_int_minus)
  have f2: "fl (81064793292668925 / 9007199254740992) = 9"
    using fl_eqI[of 3 "81064793292668925 / 9007199254740992" 5066549580791808] by (simp add: power_int_minus)
  show ?thesis
    by (simp add: step_to_percentage_def int_truediv_def float_mul_int_def float_mul_def
        int_to_float_small finite_or_raise_small fl_numeral fl_one f1 f2)
qed

lemma step_to_percentage_100_10: "step_to_percentage 100 10 = Inr 10"
proof -
  have f1: "fl (1 / 10) = 3602879701896397 / 36028797018963968"
    using fl_eqI[of "- 4" "1 / 10" 7205759403792794] by (simp add: power_int_minus)
  have f2: "fl (90071992547409925 / 9007199254740992) = 10"
    using fl_eqI[of 3 "90071992547409925 / 9007199254740992" 5629499534213120] by (simp add: power_int_minus)
  show ?thesis
    by (simp add: step_to_percentage_def int_truediv_def float_mul_int_def float_mul_def
        int_to_float_small finite_or_raise_small fl_numeral fl_one f1 f2)
qed

lemma step_to_percentage_100_11: "step_to_percentage 100 11 = Inr 11"
proof -
  have f1: "fl (11 / 100) = 7926335344172073 / 72057594037927936"
    using fl_eqI[of "- 4" "11 / 100" 7926335344172073] by (simp add: power_int_minus)
  have f2: "fl (198158383604301825 / 18014398509481984) = 11"
    using fl_eqI[of 3 "198158383604301825 / 18014398509481984" 6192449487634432] by (simp add: power_int_minus)
  show ?thesis
    by (simp add: step_to_percentage_def int_truediv_def float_mul_int_def float_mul_def
        int_to_float_small finite_or_raise_small fl_numeral fl_one f1 f2)
qed

lemma step_to_percentage_100_12: "step_to_percentage 100 12 = Inr 12"
proof -
  have f1: "fl (3 / 25) = 1080863910568919 / 9007199254740992"
    using fl_eqI[of "- 4" "3 / 25" 8646911284551352] by (simp add: power_int_minus)
  have f2: "fl (27021597764222975 / 2251799813685248) = 12"
    using fl_eqI[of 3 "27021597764222975 / 2251799813685248" 6755399441055744] by (simp add: power_int_minus)
  show ?thesis
    by (simp add: step_to_percentage_def int_truediv_def float_mul_int_def float_mul_def
        int_to_float_small finite_or_raise_small fl_numeral fl_one f1 f2)
qed

lemma step_to_percentage_100_13: "step_to_percentage 100 13 = Inr 13"
proof -
  have f1: "fl (13 / 100) = 1170935903116329 / 9007199254740992"
    using fl_eqI[of "- 3" "13 / 100" 4683743612465316] by (simp add: power_int_minus)
  have f2: "fl (29273397577908225 / 2251799813685248) = 13"
    using fl_eqI[of 3 "29273397577908225 / 2251799813685248" 7318349394477056] by (simp add: power_int_minus)
  show ?thesis
    by (simp add: step_to_percentage_def int_truediv_def float_mul_int_def float_mul_def
        int_to_float_small finite_or_raise_small fl_numeral fl_one f1 f2)
qed

lemma step_to_percentage_100_14: "step_to_percentage 100 14 = Inr 14"
proof -
  have f1: "fl (7 / 50) = 1261007895663739 / 9007199254740992"
    using fl_eqI[of "- 3" "7 / 50" 5044031582654956] by (simp add: power_int_minus)
  have f2: "fl (31525197391593475 / 2251799813685248) = 7881299347898369 / 562949953421312"
    using fl_eqI[of 3 "31525197391593475 / 2251799813685248" 7881299347898369] by (simp add: power_int_minus)
  have t3: "py_int (7881299347898369 / 562949953421312) = 14"
    by (rule py_int_eqI) simp_all
  show ?thesis
    by (simp add: step_to_percentage_def int_truediv_def float_mul_int_def float_mul_def
        int_to_float_small finite_or_raise_small fl_numeral fl_one f1 f2 t3)
qed

lemma step_to_percentage_100_15: "step_to_percentage 100 15 = Inr 15"
proof -
  have f1: "fl (3 / 20) = 5404319552844595 / 36028797018963968"
    using fl_eqI[of "- 3" "3 / 20" 5404319552844595] by (simp add: power_int_minus)
  have f2: "fl (135107988821114875 / 9007199254740992) = 15"
    using fl_eqI[of 3 "135107988821114875 / 9007199254740992" 8444249301319680] by (simp add: power_int_minus)
  show ?thesis
    by (simp add: step_to_percentage_def int_truediv_def float_mul_int_def float_mul_def
        int_to_float_small finite_or_raise_small fl_numeral fl_one f1 f2)
qed

lemma step_to_percentage_100_16: "step_to_percentage 100 16 = Inr 16"
proof -
  have f1: "fl (4 / 25) = 5764607523034235 / 36028797018963968"
    using fl_eqI[of "- 3" "4 / 25" 5764607523034235] by (simp add: power_int_minus)
  have f2: "fl (144115188075855875 / 9007199254740992) = 16"
    using fl_eqI[of 4 "144115188075855875 / 9007199254740992" 4503599627370496] by (simp add: power_int_minus)
  show ?thesis
    by (simp add: step_to_percentage_def int_truediv_def float_mul_int_def float_mul_def
        int_to_float_small finite_or_raise_small fl_numeral fl_one f1 f2)
qed

lemma step_to_percentage_100_17: "step_to_percentage 100 17 = Inr 17"
proof -
  have f1: "fl (17 / 100) = 6124895493223875 / 36028797018963968"
    using fl_eqI[of "- 3" "17 / 100" 6124895493223875] by (simp add: power_int_minus)
  have f2: "fl (153122387330596875 / 9007199254740992) = 17"
    using fl_eqI[of 4 "153122387330596875 / 9007199254740992" 4785074604081152] by (simp add: power_int_minus)
  show ?thesis
    by (simp add: step_to_percentage_def int_truediv_def float_mul_int_def float_mul_def
        int_to_float_small finite_or_raise_small fl_numeral fl_one f1 f2)
qed

lemma step_to_percentage_100_18: "step_to_percentage 100 18 = Inr 18"
proof -
  have f1: "fl (9 / 50) = 3242591731706757 / 18014398509481984"
    using fl_eqI[of "- 3" "9 / 50" 6485183463413514] by (simp add: power_int_minus)
  have f2: "fl (81064793292668925 / 4503599627370496) = 18"
    using fl_eqI[of 4 "81064793292668925 / 4503599627370496" 5066549580791808] by (simp add: power_int_minus)
  show ?thesis
    by (simp add: step_to_percentage_def int_truediv_def float_mul_int_def float_mul_def
        int_to_float_small finite_or_raise_small fl_numeral fl_one f1 f2)
qed

lemma step_to_percentage_100_19: "step_to_percentage 100 19 = Inr 19"
proof -
  have f1: "fl (19 / 100) = 3422735716801577 / 18014398509481984"
    using fl_eqI[of "- 3" "19 / 100" 6845471433603154] by (simp add: power_int_minus)
  have f2: "fl (85568392920039425 / 4503599627370496) = 19"
    using fl_eqI[of 4 "85568392920039425 / 4503599627370496" 5348024557502464] by (simp add: power_int_minus)
  show ?thesis
    by (simp add: step_to_percentage_def int_truediv_def float_mul_int_def float_mul_def
        int_to_float_small finite_or_raise_small fl_numeral fl_one f1 f2)
qed

lemma step_to_percentage_100_20: "step_to_percentage 100 20 = Inr 20"
proof -
  have f1: "fl (1 / 5) = 3602879701896397 / 18014398509481984"
    using fl_eqI[of "- 3" "1 / 5" 7205759403792794] by (simp add: power_int_minus)
  have f2: "fl (90071992547409925 / 4503599627370496) = 20"
    using fl_eqI[of 4 "90071992547409925 / 4503599627370496" 5629499534213120] by (simp add: power_int_minus)
  show ?thesis
    by (simp add: step_to_percentage_def int_truediv_def float_mul_int_def float_mul_def
        int_to_float_small finite_or_raise_small fl_numeral fl_one f1 f2)
qed

lemma step_to_percentage_100_21: "step_to_percentage 100 21 = Inr 21"
proof -
  have f1: "fl (21 / 100) = 7566047373982433 / 36028797018963968"
    using fl_eqI[of "- 3" "21 / 100" 7566047373982433] by (simp add: power_int_minus)
  have f2: "fl (189151184349560825 / 9007199254740992) = 21"
    using fl_eqI[of 4 "189151184349560825 / 9007199254740992" 5910974510923776] by (simp add: power_int_minus)
  show ?thesis
    by (simp add: step_to_percentage_def int_truediv_def float_mul_int_def float_mul_def
        int_to_float_small finite_or_raise_small fl_numeral fl_one f1 f2)
qed

lemma step_to_percentage_100_22: "step_to_percentage 100 22 = Inr 22"
proof -
  have f1: "fl (11 / 50) = 7926335344172073 / 36028797018963968"
    using fl_eqI[of "- 3" "11 / 50" 7926335344172073] by (simp add: power_int_minus)
  have f2: "fl (198158383604301825 / 9007199254740992) = 22"
    using fl_eqI[of 4 "198158383604301825 / 9007199254740992" 6192449487634432] by (simp add: power_int_minus)
  show ?thesis
    by (simp add: step_to_percentage_def int_truediv_def float_mul_int_def float_mul_def
        int_to_float_small finite_or_raise_small fl_numeral fl_one f1 f2)
qed

lemma step_to_percentage_100_23: "step_to_percentage 100 23 = Inr 23"
proof -
  have f1: "fl (23 / 100) = 8286623314361713 / 36028797018963968"
    using fl_eqI[of "- 3" "23 / 100" 8286623314361713] by (simp add: power_int_minus)
  have f2: "fl (207165582859042825 / 9007199254740992) = 23"
    using fl_eqI[of 4 "207165582859042825 / 9007199254740992" 6473924464345088] by (simp add: power_int_minus)
  show ?thesis
    by (simp add: step_to_percentage_def int_truediv_def float_mul_int_def float_mul_def
        int_to_float_small finite_or_raise_small fl_numeral fl_one f1 f2)
qed

lemma step_to_percentage_100_24: "step_to_percentage 100 24 = Inr 24"
proof -
  have f1: "fl (6 / 25) = 1080863910568919 / 4503599627370496"
    using fl_eqI[of "- 3" "6 / 25" 8646911284551352] by (simp add: power_int_minus)
  have f2: "fl (27021597764222975 / 1125899906842624) = 24"
    using fl_eqI[of 4 "27021597764222975 / 1125899906842624" 6755399441055744] by (simp add: power_int_minus)
  show ?thesis
    by (simp add: step_to_percentage_def int_truediv_def float_mul_int_def float_mul_def
        int_to_float_small finite_or_raise_small fl_numeral fl_one f1 f2)
qed

lemma step_to_percentage_100_25: "step_to_percentage 100 25 = Inr 25"
proof -
  have f1: "fl (1 / 4) = 1 / 4"
    using fl_eqI[of "- 2" "1 / 4" 4503599627370496] by (simp add: power_int_minus)
  show ?thesis
    by (simp add: step_to_percentage_def int_truediv_def float_mul_int_def float_mul_def
        int_to_float_small finite_or_raise_small fl_numeral fl_one f1)
qed

lemma step_to_percentage_100_26: "step_to_percentage 100 26 = Inr 26"
proof -
  have f1: "fl (13 / 50) = 1170935903116329 / 4503599627370496"
    using fl_eqI[of "- 2" "13 / 50" 4683743612465316] by (simp add: power_int_minus)
  have f2: "fl (29273397577908225 / 1125899906842624) = 26"
    using fl_eqI[of 4 "29273397577908225 / 1125899906842624" 7318349394477056] by (simp add: power_int_minus)
  show ?thesis
    by (simp add: step_to_percentage_def int_truediv_def float_mul_int_def float_mul_def
        int_to_float_small finite_or_raise_small fl_numeral fl_one f1 f2)
qed

lemma step_to_percentage_100_27: "step_to_percentage 100 27 = Inr 27"
proof -
  have f1: "fl (27 / 100) = 607985949695017 / 2251799813685248"
    using fl_eqI[of "- 2" "27 / 100" 4863887597560136] by (simp add: power_int_minus)
  have f2: "fl (15199648742375425 / 562949953421312) = 27"
    using fl_tie_eqI[of 4 "15199648742375425 / 562949953421312" 7599824371187712] by (simp add: power_int_minus)
  show ?thesis
    by (simp add: step_to_percentage_def int_truediv_def float_mul_int_def float_mul_def
        int_to_float_small finite_or_raise_small fl_numeral fl_one f1 f2)
qed

lemma step_to_percentage_100_28: "step_to_percentage 100 28 = Inr 28"
proof -
  have f1: "fl (7 / 25) = 1261007895663739 / 4503599627370496"
    using fl_eqI[of "- 2" "7 / 25" 5044031582654956] by (simp add: power_int_minus)
  have f2: "fl (31525197391593475 / 1125899906842624) = 7881299347898369 / 281474976710656"
    using fl_eqI[of 4 "31525197391593475 / 1125899906842624" 7881299347898369] by (simp add: power_int_minus)
  have t3: "py_int (7881299347898369 / 281474976710656) = 28"
    by (rule py_int_eqI) simp_all
  show ?thesis
    by (simp add: step_to_percentage_def int_truediv_def float_mul_int_def float_mul_def
        int_to_float_small finite_or_raise_small fl_numeral fl_one f1 f2 t3)
qed

lemma step_to_percentage_100_29: "step_to_percentage 100 29 = Inr 28"
proof -
  have f1: "fl (29 / 100) = 5224175567749775 / 18014398509481984"
    using fl_eqI[of "- 2" "29 / 100" 5224175567749775] by (simp add: power_int_minus)
  have f2: "fl (130604389193744375 / 4503599627370496) = 8162774324609023 / 281474976710656"
    using fl_eqI[of 4 "130604389193744375 / 4503599627370496" 8162774324609023] by (simp add: power_int_minus)
  have t3: "py_int (8162774324609023 / 281474976710656) = 28"
    by (rule py_int_eqI) simp_all
  show ?thesis
    by (simp add: step_to_percentage_def int_truediv_def float_mul_int_def float_mul_def
        int_to_float_small finite_or_raise_small fl_numeral fl_one f1 f2 t3)
qed

lemma step_to_percentage_100_30: "step_to_percentage 100 30 = Inr 30"
proof -
  have f1: "fl (3 / 10) = 5404319552844595 / 18014398509481984"
    using fl_eqI[of "- 2" "3 / 10" 5404319552844595] by (simp add: power_int_minus)
  have f2: "fl (135107988821114875 / 4503599627370496) = 30"
    using fl_eqI[of 4 "135107988821114875 / 4503599627370496" 8444249301319680] by (simp add: power_int_minus)
  show ?thesis
    by (simp add: step_to_percentage_def int_truediv_def float_mul_int_def float_mul_def
        int_to_float_small finite_or_raise_small fl_numeral fl_one f1 f2)
qed

lemma step_to_percentage_100_31: "step_to_percentage 100 31 = Inr 31"
proof -
  have f1: "fl (31 / 100) = 5584463537939415 / 18014398509481984"
    using fl_eqI[of "- 2" "31 / 100" 5584463537939415] by (simp add: power_int_minus)
  have f2: "fl (139611588448485375 / 4503599627370496) = 31"
    using fl_eqI[of 4 "139611588448485375 / 4503599627370496" 8725724278030336] by (simp add: power_int_minus)
  show ?thesis
    by (simp add: step_to_percentage_def int_truediv_def float_mul_int_def float_mul_def
        int_to_float_small finite_or_raise_small fl_numeral fl_one f1 f2)
qed

lemma step_to_percentage_100_32: "step_to_percentage 100 32 = Inr 32"
proof -
  have f1: "fl (8 / 25) = 5764607523034235 / 18014398509481984"
    using fl_eqI[of "- 2" "8 / 25" 5764607523034235] by (simp add: power_int_minus)
  have f2: "fl (144115188075855875 / 4503599627370496) = 32"
    using fl_eqI[of 5 "144115188075855875 / 4503599627370496" 4503599627370496] by (simp add: power_int_minus)
  show ?thesis
    by (simp add: step_to_percentage_def int_truediv_def float_mul_int_def float_mul_def
        int_to_float_small finite_or_raise_small fl_numeral fl_one f1 f2)
qed

lemma step_to_percentage_100_33: "step_to_percentage 100 33 = Inr 33"
proof -
  have f1: "fl (33 / 100) = 5944751508129055 / 18014398509481984"
    using fl_eqI[of "- 2" "33 / 100" 5944751508129055] by (simp add: power_int_minus)
  have f2: "fl (148618787703226375 / 4503599627370496) = 33"
    using fl_eqI[of 5 "148618787703226375 / 4503599627370496" 4644337115725824] by (simp add: power_int_minus)
  show ?thesis
    by (simp add: step_to_percentage_def int_truediv_def float_mul_int_def float_mul_def
        int_to_float_small finite_or_raise_small fl_numeral fl_one f1 f2)
qed

lemma step_to_percentage_100_34: "step_to_percentage 100 34 = Inr 34"
proof -
  have f1: "fl (17 / 50) = 6124895493223875 / 18014398509481984"
    using fl_eqI[of "- 2" "17 / 50" 6124895493223875] by (simp add: power_int_minus)
  have f2: "fl (153122387330596875 / 4503599627370496) = 34"
    using fl_eqI[of 5 "153122387330596875 / 4503599627370496" 4785074604081152] by (simp add: power_int_minus)
  show ?thesis
    by (simp add: step_to_percentage_def int_truediv_def float_mul_int_def float_mul_def
        int_to_float_small finite_or_raise_small fl_numeral fl_one f1 f2)
qed

lemma step_to_percentage_100_35: "step_to_percentage 100 35 = Inr 35"
proof -
  have f1: "fl (7 / 20) = 3152519739159347 / 9007199254740992"
    using fl_eqI[of "- 2" "7 / 20" 6305039478318694] by (simp add: power_int_minus)
  have f2: "fl (78812993478983675 / 2251799813685248) = 35"
    using fl_eqI[of 5 "78812993478983675 / 2251799813685248" 4925812092436480] by (simp add: power_int_minus)
  show ?thesis
    by (simp add: step_to_percentage_def int_truediv_def float_mul_int_def float_mul_def
        int_to_float_small finite_or_raise_small fl_numeral fl_one f1 f2)
qed

lemma step_to_percentage_100_36: "step_to_percentage 100 36 = Inr 36"
proof -
  have f1: "fl (9 / 25) = 3242591731706757 / 9007199254740992"
    using fl_eqI[of "- 2" "9 / 25" 6485183463413514] by (simp add: power_int_minus)
  have f2: "fl (81064793292668925 / 2251799813685248) = 36"
    using fl_eqI[of 5 "81064793292668925 / 2251799813685248" 5066549580791808] by (simp add: power_int_minus)
  show ?thesis
    by (simp add: step_to_percentage_def int_truediv_def float_mul_int_def float_mul_def
        int_to_float_small finite_or_raise_small fl_numeral fl_one f1 f2)
qed

lemma step_to_percentage_100_37: "step_to_percentage 100 37 = Inr 37"
proof -
  have f1: "fl (37 / 100) = 3332663724254167 / 9007199254740992"
    using fl_eqI[of "- 2" "37 / 100" 6665327448508334] by (simp add: power_int_minus)
  have f2: "fl (83316593106354175 / 2251799813685248) = 37"
    using fl_eqI[of 5 "83316593106354175 / 2251799813685248" 5207287069147136] by (simp add: power_int_minus)
  show ?thesis
    by (simp add: step_to_percentage_def int_truediv_def float_mul_int_def float_mul_def
        int_to_float_small finite_or_raise_small fl_numeral fl_one f1 f2)
qed

lemma step_to_percentage_100_38: "step_to_percentage 100 38 = Inr 38"
proof -
  have f1: "fl (19 / 50) = 3422735716801577 / 9007199254740992"
    using fl_eqI[of "- 2" "19 / 50" 6845471433603154] by (simp add: power_int_minus)
  have f2: "fl (85568392920039425 / 2251799813685248) = 38"
    using fl_eqI[of 5 "85568392920039425 / 2251799813685248" 5348024557502464] by (simp add: power_int_minus)
  show ?thesis
    by (simp add: step_to_percentage_def int_truediv_def float_mul_int_def float_mul_def
        int_to_float_small finite_or_raise_small fl_numeral fl_one f1 f2)
qed

lemma step_to_percentage_100_39: "step_to_percentage 100 39 = Inr 39"
proof -
  have f1: "fl (39 / 100) = 3512807709348987 / 9007199254740992"
    using fl_eqI[of "- 2" "39 / 100" 7025615418697974] by (simp add: power_int_minus)
  have f2: "fl (87820192733724675 / 2251799813685248) = 39"
    using fl_eqI[of 5 "87820192733724675 / 2251799813685248" 5488762045857792] by (simp add: power_int_minus)
  show ?thesis
    by (simp add: step_to_percentage_def int_truediv_def float_mul_int_def float_mul_def
        int_to_float_small finite_or_raise_small fl_numeral fl_one f1 f2)
qed

lemma step_to_percentage_100_40: "step_to_percentage 100 40 = Inr 40"
proof -
  have f1: "fl (2 / 5) = 3602879701896397 / 9007199254740992"
    using fl_eqI[of "- 2" "2 / 5" 7205759403792794] by (simp add: power_int_minus)
  have f2: "fl (90071992547409925 / 2251799813685248) = 40"
    using fl_eqI[of 5 "90071992547409925 / 2251799813685248" 5629499534213120] by (simp add: power_int_minus)
  show ?thesis
    by (simp add: step_to_percentage_def int_truediv_def float_mul_int_def float_mul_def
        int_to_float_small finite_or_raise_small fl_numeral fl_one f1 f2)
qed

lemma step_to_percentage_100_41: "step_to_percentage 100 41 = Inr 41"
proof -
  have f1: "fl (41 / 100) = 7385903388887613 / 18014398509481984"
    using fl_eqI[of "- 2" "41 / 100" 7385903388887613] by (simp add: power_int_minus)
  have f2: "fl (184647584722190325 / 4503599627370496) = 41"
    using fl_eqI[of 5 "184647584722190325 / 4503599627370496" 5770237022568448] by (simp add: power_int_minus)
  show ?thesis
    by (simp add: step_to_percentage_def int_truediv_def float_mul_int_def float_mul_def
        int_to_float_small finite_or_raise_small fl_numeral fl_one f1 f2)
qed

lemma step_to_percentage_100_42: "step_to_percentage 100 42 = Inr 42"
proof -
  have f1: "fl (21 / 50) = 7566047373982433 / 18014398509481984"
    using fl_eqI[of "- 2" "21 / 50" 7566047373982433] by (simp add: power_int_minus)
  have f2: "fl (189151184349560825 / 4503599627370496) = 42"
    using fl_eqI[of 5 "189151184349560825 / 4503599627370496" 5910974510923776] by (simp add: power_int_minus)
  show ?thesis
    by (simp add: step_to_percentage_def int_truediv_def float_mul_int_def float_mul_def
        int_to_float_small finite_or_raise_small fl_numeral fl_one f1 f2)
qed

lemma step_to_percentage_100_43: "step_to_percentage 100 43 = Inr 43"
proof -
  have f1: "fl (43 / 100) = 7746191359077253 / 18014398509481984"
    using fl_eqI[of "- 2" "43 / 100" 7746191359077253] by (simp add: power_int_minus)
  have f2: "fl (193654783976931325 / 4503599627370496) = 43"
    using fl_eqI[of 5 "193654783976931325 / 4503599627370496" 6051711999279104] by (simp add: power_int_minus)
  show ?thesis
    by (simp add: step_to_percentage_def int_truediv_def float_mul_int_def float_mul_def
        int_to_float_small finite_or_raise_small fl_numeral fl_one f1 f2)
qed

lemma step_to_percentage_100_44: "step_to_percentage 100 44 = Inr 44"
proof -
  have f1: "fl (11 / 25) = 7926335344172073 / 18014398509481984"
    using fl_eqI[of "- 2" "11 / 25" 7926335344172073] by (simp add: power_int_minus)
  have f2: "fl (198158383604301825 / 4503599627370496) = 44"
    using fl_eqI[of 5 "198158383604301825 / 4503599627370496" 6192449487634432] by (simp add: power_int_minus)
  show ?thesis
    by (simp add: step_to_percentage_def int_truediv_def float_mul_int_def float_mul_def
        int_to_float_small finite_or_raise_small fl_numeral fl_one f1 f2)
qed

lemma step_to_percentage_100_45: "step_to_percentage 100 45 = Inr 45"
proof -
  have f1: "fl (9 / 20) = 8106479329266893 / 18014398509481984"
    using fl_eqI[of "- 2" "9 / 20" 8106479329266893] by (simp add: power_int_minus)
  have f2: "fl (202661983231672325 / 4503599627370496) = 45"
    using fl_eqI[of 5 "202661983231672325 / 4503599627370496" 6333186975989760] by (simp add: power_int_minus)
  show ?thesis
    by (simp add: step_to_percentage_def int_truediv_def float_mul_int_def float_mul_def
        int_to_float_small finite_or_raise_small fl_numeral fl_one f1 f2)
qed

lemma step_to_percentage_100_46: "step_to_percentage 100 46 = Inr 46"
proof -
  have f1: "fl (23 / 50) = 8286623314361713 / 18014398509481984"
    using fl_eqI[of "- 2" "23 / 50" 8286623314361713] by (simp add: power_int_minus)
  have f2: "fl (207165582859042825 / 4503599627370496) = 46"
    using fl_eqI[of 5 "207165582859042825 / 4503599627370496" 6473924464345088] by (simp add: power_int_minus)
  show ?thesis
    by (simp add: step_to_percentage_def int_truediv_def float_mul_int_def float_mul_def
        int_to_float_small finite_or_raise_small fl_numeral fl_one f1 f2)
qed

lemma step_to_percentage_100_47: "step_to_percentage 100 47 = Inr 47"
proof -
  have f1: "fl (47 / 100) = 2116691824864133 / 4503599627370496"
    using fl_eqI[of "- 2" "47 / 100" 8466767299456532] by (simp add: power_int_minus)
  have f2: "fl (52917295621603325 / 1125899906842624) = 47"
    using fl_eqI[of 5 "52917295621603325 / 1125899906842624" 6614661952700416] by (simp add: power_int_minus)
  show ?thesis
    by (simp add: step_to_percentage_def int_truediv_def float_mul_int_def float_mul_def
        int_to_float_small finite_or_raise_small fl_numeral fl_one f1 f2)
qed

lemma step_to_percentage_100_48: "step_to_percentage 100 48 = Inr 48"
proof -
  have f1: "fl (12 / 25) = 1080863910568919 / 2251799813685248"
    using fl_eqI[of "- 2" "12 / 25" 8646911284551352] by (simp add: power_int_minus)
  have f2: "fl (27021597764222975 / 562949953421312) = 48"
    using fl_eqI[of 5 "27021597764222975 / 562949953421312" 6755399441055744] by (simp add: power_int_minus)
  show ?thesis
    by (simp add: step_to_percentage_def int_truediv_def float_mul_int_def float_mul_def
        int_to_float_small finite_or_raise_small fl_numeral fl_one f1 f2)
qed

lemma step_to_percentage_100_49: "step_to_percentage 100 49 = Inr 49"
proof -
  have f1: "fl (49 / 100) = 2206763817411543 / 4503599627370496"
    using fl_eqI[of "- 2" "49 / 100" 8827055269646172] by (simp add: power_int_minus)
  have f2: "fl (55169095435288575 / 1125899906842624) = 49"
    using fl_eqI[of 5 "55169095435288575 / 1125899906842624" 6896136929411072] by (simp add: power_int_minus)
  show ?thesis
    by (simp add: step_to_percentage_def int_truediv_def float_mul_int_def float_mul_def
        int_to_float_small finite_or_raise_small fl_numeral fl_one f1 f2)
qed

lemma step_to_percentage_100_50: "step_to_percentage 100 50 = Inr 50"
proof -
  have f1: "fl (1 / 2) = 1 / 2"
    using fl_eqI[of "- 1" "1 / 2" 4503599627370496] by (simp add: power_int_minus)
  show ?thesis
    by (simp add: step_to_percentage_def int_truediv_def float_mul_int_def float_mul_def
        int_to_float_small finite_or_raise_small fl_numeral fl_one f1)
qed

lemma step_to_percentage_100_51: "step_to_percentage 100 51 = Inr 51"
proof -
  have f1: "fl (51 / 100) = 2296835809958953 / 4503599627370496"
    using fl_eqI[of "- 1" "51 / 100" 4593671619917906] by (simp add: power_int_minus)
  have f2: "fl (57420895248973825 / 1125899906842624) = 51"
    using fl_eqI[of 5 "57420895248973825 / 1125899906842624" 7177611906121728] by (simp add: power_int_minus)
  show ?thesis
    by (simp add: step_to_percentage_def int_truediv_def float_mul_int_def float_mul_def
        int_to_float_small finite_or_raise_small fl_numeral fl_one f1 f2)
qed

lemma step_to_percentage_100_52: "step_to_percentage 100 52 = Inr 52"
proof -
  have f1: "fl (13 / 25) = 1170935903116329 / 2251799813685248"
    using fl_eqI[of "- 1" "13 / 25" 4683743612465316] by (simp add: power_int_minus)
  have f2: "fl (29273397577908225 / 562949953421312) = 52"
    using fl_eqI[of 5 "29273397577908225 / 562949953421312" 7318349394477056] by (simp add: power_int_minus)
  show ?thesis
    by (simp add: step_to_percentage_def int_truediv_def float_mul_int_def float_mul_def
        int_to_float_small finite_or_raise_small fl_numeral fl_one f1 f2)
qed

lemma step_to_percentage_100_53: "step_to_percentage 100 53 = Inr 53"
proof -
  have f1: "fl (53 / 100) = 2386907802506363 / 4503599627370496"
    using fl_eqI[of "- 1" "53 / 100" 4773815605012726] by (simp add: power_int_minus)
  have f2: "fl (59672695062659075 / 1125899906842624) = 53"
    using fl_eqI[of 5 "59672695062659075 / 1125899906842624" 7459086882832384] by (simp add: power_int_minus)
  show ?thesis
    by (simp add: step_to_percentage_def int_truediv_def float_mul_int_def float_mul_def
        int_to_float_small finite_or_raise_small fl_numeral fl_one f1 f2)
qed

lemma step_to_percentage_100_54: "step_to_percentage 100 54 = Inr 54"
proof -
  have f1: "fl (27 / 50) = 607985949695017 / 1125899906842624"
    using fl_eqI[of "- 1" "27 / 50" 4863887597560136] by (simp add: power_int_minus)
  have f2: "fl (15199648742375425 / 281474976710656) = 54"
    using fl_tie_eqI[of 5 "15199648742375425 / 281474976710656" 7599824371187712] by (simp add: power_int_minus)
  show ?thesis
    by (simp add: step_to_percentage_def int_truediv_def float_mul_int_def float_mul_def
        int_to_float_small finite_or_raise_small fl_numeral fl_one f1 f2)
qed

lemma step_to_percentage_100_55: "step_to_percentage 100 55 = Inr 55"
proof -
  have f1: "fl (11 / 20) = 2476979795053773 / 4503599627370496"
    using fl_eqI[of "- 1" "11 / 20" 4953959590107546] by (simp add: power_int_minus)
  have f2: "fl (61924494876344325 / 1125899906842624) = 7740561859543041 / 140737488355328"
    using fl_eqI[of 5 "61924494876344325 / 1125899906842624" 7740561859543041] by (simp add: power_int_minus)
  have t3: "py_int (7740561859543041 / 140737488355328) = 55"
    by (rule py_int_eqI) simp_all
  show ?thesis
    by (simp add: step_to_percentage_def int_truediv_def float_mul_int_def float_mul_def
        int_to_float_small finite_or_raise_small fl_numeral fl_one f1 f2 t3)
qed

lemma step_to_percentage_100_56: "step_to_percentage 100 56 = Inr 56"
proof -
  have f1: "fl (14 / 25) = 1261007895663739 / 2251799813685248"
    using fl_eqI[of "- 1" "14 / 25" 5044031582654956] by (simp add: power_int_minus)
  have f2: "fl (31525197391593475 / 562949953421312) = 7881299347898369 / 140737488355328"
    using fl_eqI[of 5 "31525197391593475 / 562949953421312" 7881299347898369] by (simp add: power_int_minus)
  have t3: "py_int (7881299347898369 / 140737488355328) = 56"
    by (rule py_int_eqI) simp_all
  show ?thesis
    by (simp add: step_to_percentage_def int_truediv_def float_mul_int_def float_mul_def
        int_to_float_small finite_or_raise_small fl_numeral fl_one f1 f2 t3)
qed

lemma step_to_percentage_100_57: "step_to_percentage 100 57 = Inr 56"
proof -
  have f1: "fl (57 / 100) = 5134103575202365 / 9007199254740992"
    using fl_eqI[of "- 1" "57 / 100" 5134103575202365] by (simp add: power_int_minus)
  have f2: "fl (128352589380059125 / 2251799813685248) = 8022036836253695 / 140737488355328"
    using fl_eqI[of 5 "128352589380059125 / 2251799813685248" 8022036836253695] by (simp add: power_int_minus)
  have t3: "py_int (8022036836253695 / 140737488355328) = 56"
    by (rule py_int_eqI) simp_all
  show ?thesis
    by (simp add: step_to_percentage_def int_truediv_def float_mul_int_def float_mul_def
        int_to_float_small finite_or_raise_small fl_numeral fl_one f1 f2 t3)
qed

lemma step_to_percentage_100_58: "step_to_percentage 100 58 = Inr 57"
proof -
  have f1: "fl (29 / 50) = 5224175567749775 / 9007199254740992"
    using fl_eqI[of "- 1" "29 / 50" 5224175567749775] by (simp add: power_int_minus)
  have f2: "fl (130604389193744375 / 2251799813685248) = 8162774324609023 / 140737488355328"
    using fl_eqI[of 5 "130604389193744375 / 2251799813685248" 8162774324609023] by (simp add: power_int_minus)
  have t3: "py_int (8162774324609023 / 140737488355328) = 57"
    by (rule py_int_eqI) simp_all
  show ?thesis
    by (simp add: step_to_percentage_def int_truediv_def float_mul_int_def float_mul_def
        int_to_float_small finite_or_raise_small fl_numeral fl_one f1 f2 t3)
qed

lemma step_to_percentage_100_59: "step_to_percentage 100 59 = Inr 59"
proof -
  have f1: "fl (59 / 100) = 5314247560297185 / 9007199254740992"
    using fl_eqI[of "- 1" "59 / 100" 5314247560297185] by (simp add: power_int_minus)
  have f2: "fl (132856189007429625 / 2251799813685248) = 59"
    using fl_eqI[of 5 "132856189007429625 / 2251799813685248" 8303511812964352] by (simp add: power_int_minus)
  show ?thesis
    by (simp add: step_to_percentage_def int_truediv_def float_mul_int_def float_mul_def
        int_to_float_small finite_or_raise_small fl_numeral fl_one f1 f2)
qed

lemma step_to_percentage_100_60: "step_to_percentage 100 60 = Inr 60"
proof -
  have f1: "fl (3 / 5) = 5404319552844595 / 9007199254740992"
    using fl_eqI[of "- 1" "3 / 5" 5404319552844595] by (simp add: power_int_minus)
  have f2: "fl (135107988821114875 / 2251799813685248) = 60"
    using fl_eqI[of 5 "135107988821114875 / 2251799813685248" 8444249301319680] by (simp add: power_int_minus)
  show ?thesis
    by (simp add: step_to_percentage_def int_truediv_def float_mul_int_def float_mul_def
        int_to_float_small finite_or_raise_small fl_numeral fl_one f1 f2)
qed

lemma step_to_percentage_100_61: "step_to_percentage 100 61 = Inr 61"
proof -
  have f1: "fl (61 / 100) = 5494391545392005 / 9007199254740992"
    using fl_eqI[of "- 1" "61 / 100" 5494391545392005] by (simp add: power_int_minus)
  have f2: "fl (137359788634800125 / 2251799813685248) = 61"
    using fl_eqI[of 5 "137359788634800125 / 2251799813685248" 8584986789675008] by (simp add: power_int_minus)
  show ?thesis
    by (simp add: step_to_percentage_def int_truediv_def float_mul_int_def float_mul_def
        int_to_float_small finite_or_raise_small fl_numeral fl_one f1 f2)
qed

lemma step_to_percentage_100_62: "step_to_percentage 100 62 = Inr 62"
proof -
  have f1: "fl (31 / 50) = 5584463537939415 / 9007199254740992"
    using fl_eqI[of "- 1" "31 / 50" 5584463537939415] by (simp add: power_int_minus)
  have f2: "fl (139611588448485375 / 2251799813685248) = 62"
    using fl_eqI[of 5 "139611588448485375 / 2251799813685248" 8725724278030336] by (simp add: power_int_minus)
  show ?thesis
    by (simp add: step_to_percentage_def int_truediv_def float_mul_int_def float_mul_def
        int_to_float_small finite_or_raise_small fl_numeral fl_one f1 f2)
qed

lemma step_to_percentage_100_63: "step_to_percentage 100 63 = Inr 63"
proof -
  have f1: "fl (63 / 100) = 5674535530486825 / 9007199254740992"
    using fl_eqI[of "- 1" "63 / 100" 5674535530486825] by (simp add: power_int_minus)
  have f2: "fl (141863388262170625 / 2251799813685248) = 63"
    using fl_eqI[of 5 "141863388262170625 / 2251799813685248" 8866461766385664] by (simp add: power_int_minus)
  show ?thesis
    by (simp add: step_to_percentage_def int_truediv_def float_mul_int_def float_mul_def
        int_to_float_small finite_or_raise_small fl_numeral fl_one f1 f2)
qed

lemma step_to_percentage_100_64: "step_to_percentage 100 64 = Inr 64"
proof -
  have f1: "fl (16 / 25) = 5764607523034235 / 9007199254740992"
    using fl_eqI[of "- 1" "16 / 25" 5764607523034235] by (simp add: power_int_minus)
  have f2: "fl (144115188075855875 / 2251799813685248) = 64"
    using fl_eqI[of 6 "144115188075855875 / 2251799813685248" 4503599627370496] by (simp add: power_int_minus)
  show ?thesis
    by (simp add: step_to_percentage_def int_truediv_def float_mul_int_def float_mul_def
        int_to_float_small finite_or_raise_small fl_numeral fl_one f1 f2)
qed

lemma step_to_percentage_100_65: "step_to_percentage 100 65 = Inr 65"
proof -
  have f1: "fl (13 / 20) = 5854679515581645 / 9007199254740992"
    using fl_eqI[of "- 1" "13 / 20" 5854679515581645] by (simp add: power_int_minus)
  have f2: "fl (146366987889541125 / 2251799813685248) = 65"
    using fl_eqI[of 6 "146366987889541125 / 2251799813685248" 4573968371548160] by (simp add: power_int_minus)
  show ?thesis
    by (simp add: step_to_percentage_def int_truediv_def float_mul_int_def float_mul_def
        int_to_float_small finite_or_raise_small fl_numeral fl_one f1 f2)
qed

lemma step_to_percentage_100_66: "step_to_percentage 100 66 = Inr 66"
proof -
  have f1: "fl (33 / 50) = 5944751508129055 / 9007199254740992"
    using fl_eqI[of "- 1" "33 / 50" 5944751508129055] by (simp add: power_int_minus)
  have f2: "fl (148618787703226375 / 2251799813685248) = 66"
    using fl_eqI[of 6 "148618787703226375 / 2251799813685248" 4644337115725824] by (simp add: power_int_minus)
  show ?thesis
    by (simp add: step_to_percentage_def int_truediv_def float_mul_int_def float_mul_def
        int_to_float_small finite_or_raise_small fl_numeral fl_one f1 f2)
qed

lemma step_to_percentage_100_67: "step_to_percentage 100 67 = Inr 67"
proof -
  have f1: "fl (67 / 100) = 6034823500676465 / 9007199254740992"
    using fl_eqI[of "- 1" "67 / 100" 6034823500676465] by (simp add: power_int_minus)
  have f2: "fl (150870587516911625 / 2251799813685248) = 67"
    using fl_eqI[of 6 "150870587516911625 / 2251799813685248" 4714705859903488] by (simp add: power_int_minus)
  show ?thesis
    by (simp add: step_to_percentage_def int_truediv_def float_mul_int_def float_mul_def
        int_to_float_small finite_or_raise_small fl_numeral fl_one f1 f2)
qed

lemma step_to_percentage_100_68: "step_to_percentage 100 68 = Inr 68"
proof -
  have f1: "fl (17 / 25) = 6124895493223875 / 9007199254740992"
    using fl_eqI[of "- 1" "17 / 25" 6124895493223875] by (simp add: power_int_minus)
  have f2: "fl (153122387330596875 / 2251799813685248) = 68"
    using fl_eqI[of 6 "153122387330596875 / 2251799813685248" 4785074604081152] by (simp add: power_int_minus)
  show ?thesis
    by (simp add: step_to_percentage_def int_truediv_def float_mul_int_def float_mul_def
        int_to_float_small finite_or_raise_small fl_numeral fl_one f1 f2)
qed

lemma step_to_percentage_100_69: "step_to_percentage 100 69 = Inr 69"
proof -
  have f1: "fl (69 / 100) = 1553741871442821 / 2251799813685248"
    using fl_eqI[of "- 1" "69 / 100" 6214967485771284] by (simp add: power_int_minus)
  have f2: "fl (38843546786070525 / 562949953421312) = 69"
    using fl_eqI[of 6 "38843546786070525 / 562949953421312" 4855443348258816] by (simp add: power_int_minus)
  show ?thesis
    by (simp add: step_to_percentage_def int_truediv_def float_mul_int_def float_mul_def
        int_to_float_small finite_or_raise_small fl_numeral fl_one f1 f2)
qed

lemma step_to_percentage_100_70: "step_to_percentage 100 70 = Inr 70"
proof -
  have f1: "fl (7 / 10) = 3152519739159347 / 4503599627370496"
    using fl_eqI[of "- 1" "7 / 10" 6305039478318694] by (simp add: power_int_minus)
  have f2: "fl (78812993478983675 / 1125899906842624) = 70"
    using fl_eqI[of 6 "78812993478983675 / 1125899906842624" 4925812092436480] by (simp add: power_int_minus)
  show ?thesis
    by (simp add: step_to_percentage_def int_truediv_def float_mul_int_def float_mul_def
        int_to_float_small finite_or_raise_small fl_numeral fl_one f1 f2)
qed

lemma step_to_percentage_100_71: "step_to_percentage 100 71 = Inr 71"
proof -
  have f1: "fl (71 / 100) = 799388933858263 / 1125899906842624"
    using fl_eqI[of "- 1" "71 / 100" 6395111470866104] by (simp add: power_int_minus)
  have f2: "fl (19984723346456575 / 281474976710656) = 71"
    using fl_eqI[of 6 "19984723346456575 / 281474976710656" 4996180836614144] by (simp add: power_int_minus)
  show ?thesis
    by (simp add: step_to_percentage_def int_truediv_def float_mul_int_def float_mul_def
        int_to_float_small finite_or_raise_small fl_numeral fl_one f1 f2)
qed

lemma step_to_percentage_100_72: "step_to_percentage 100 72 = Inr 72"
proof -
  have f1: "fl (18 / 25) = 3242591731706757 / 4503599627370496"
    using fl_eqI[of "- 1" "18 / 25" 6485183463413514] by (simp add: power_int_minus)
  have f2: "fl (81064793292668925 / 1125899906842624) = 72"
    using fl_eqI[of 6 "81064793292668925 / 1125899906842624" 5066549580791808] by (simp add: power_int_minus)
  show ?thesis
    by (simp add: step_to_percentage_def int_truediv_def float_mul_int_def float_mul_def
        int_to_float_small finite_or_raise_small fl_numeral fl_one f1 f2)
qed

lemma step_to_percentage_100_73: "step_to_percentage 100 73 = Inr 73"
proof -
  have f1: "fl (73 / 100) = 1643813863990231 / 2251799813685248"
    using fl_eqI[of "- 1" "73 / 100" 6575255455960924] by (simp add: power_int_minus)
  have f2: "fl (41095346599755775 / 562949953421312) = 73"
    using fl_eqI[of 6 "41095346599755775 / 562949953421312" 5136918324969472] by (simp add: power_int_minus)
  show ?thesis
    by (simp add: step_to_percentage_def int_truediv_def float_mul_int_def float_mul_def
        int_to_float_small finite_or_raise_small fl_numeral fl_one f1 f2)
qed

lemma step_to_percentage_100_74: "step_to_percentage 100 74 = Inr 74"
proof -
  have f1: "fl (37 / 50) = 3332663724254167 / 4503599627370496"
    using fl_eqI[of "- 1" "37 / 50" 6665327448508334] by (simp add: power_int_minus)
  have f2: "fl (83316593106354175 / 1125899906842624) = 74"
    using fl_eqI[of 6 "83316593106354175 / 1125899906842624" 5207287069147136] by (simp add: power_int_minus)
  show ?thesis
    by (simp add: step_to_percentage_def int_truediv_def float_mul_int_def float_mul_def
        int_to_float_small finite_or_raise_small fl_numeral fl_one f1 f2)
qed

lemma step_to_percentage_100_75: "step_to_percentage 100 75 = Inr 75"
proof -
  have f1: "fl (3 / 4) = 3 / 4"
    using fl_eqI[of "- 1" "3 / 4" 6755399441055744] by (simp add: power_int_minus)
  show ?thesis
    by (simp add: step_to_percentage_def int_truediv_def float_mul_int_def float_mul_def
        int_to_float_small finite_or_raise_small fl_numeral fl_one f1)
qed

lemma step_to_percentage_100_76: "step_to_percentage 100 76 = Inr 76"
proof -
  have f1: "fl (19 / 25) = 3422735716801577 / 4503599627370496"
    using fl_eqI[of "- 1" "19 / 25" 6845471433603154] by (simp add: power_int_minus)
  have f2: "fl (85568392920039425 / 1125899906842624) = 76"
    using fl_eqI[of 6 "85568392920039425 / 1125899906842624" 5348024557502464] by (simp add: power_int_minus)
  show ?thesis
    by (simp add: step_to_percentage_def int_truediv_def float_mul_int_def float_mul_def
        int_to_float_small finite_or_raise_small fl_numeral fl_one f1 f2)
qed

lemma step_to_percentage_100_77: "step_to_percentage 100 77 = Inr 77"
proof -
  have f1: "fl (77 / 100) = 1733885856537641 / 2251799813685248"
    using fl_eqI[of "- 1" "77 / 100" 6935543426150564] by (simp add: power_int_minus)
  have f2: "fl (43347146413441025 / 562949953421312) = 77"
    using fl_eqI[of 6 "43347146413441025 / 562949953421312" 5418393301680128] by (simp add: power_int_minus)
  show ?thesis
    by (simp add: step_to_percentage_def int_truediv_def float_mul_int_def float_mul_def
        int_to_float_small finite_or_raise_small fl_numeral fl_one f1 f2)
qed

lemma step_to_percentage_100_78: "step_to_percentage 100 78 = Inr 78"
proof -
  have f1: "fl (39 / 50) = 3512807709348987 / 4503599627370496"
    using fl_eqI[of "- 1" "39 / 50" 7025615418697974] by (simp add: power_int_minus)
  have f2: "fl (87820192733724675 / 1125899906842624) = 78"
    using fl_eqI[of 6 "87820192733724675 / 1125899906842624" 5488762045857792] by (simp add: power_int_minus)
  show ?thesis
    by (simp add: step_to_percentage_def int_truediv_def float_mul_int_def float_mul_def
        int_to_float_small finite_or_raise_small fl_numeral fl_one f1 f2)
qed

lemma step_to_percentage_100_79: "step_to_percentage 100 79 = Inr 79"
proof -
  have f1: "fl (79 / 100) = 889460926405673 / 1125899906842624"
    using fl_eqI[of "- 1" "79 / 100" 7115687411245384] by (simp add: power_int_minus)
  have f2: "fl (22236523160141825 / 281474976710656) = 79"
    using fl_eqI[of 6 "22236523160141825 / 281474976710656" 5559130790035456] by (simp add: power_int_minus)
  show ?thesis
    by (simp add: step_to_percentage_def int_truediv_def float_mul_int_def float_mul_def
        int_to_float_small finite_or_raise_small fl_numeral fl_one f1 f2)
qed

lemma step_to_percentage_100_80: "step_to_percentage 100 80 = Inr 80"
proof -
  have f1: "fl (4 / 5) = 3602879701896397 / 4503599627370496"
    using fl_eqI[of "- 1" "4 / 5" 7205759403792794] by (simp add: power_int_minus)
  have f2: "fl (90071992547409925 / 1125899906842624) = 80"
    using fl_eqI[of 6 "90071992547409925 / 1125899906842624" 5629499534213120] by (simp add: power_int_minus)
  show ?thesis
    by (simp add: step_to_percentage_def int_truediv_def float_mul_int_def float_mul_def
        int_to_float_small finite_or_raise_small fl_numeral fl_one f1 f2)
qed

lemma step_to_percentage_100_81: "step_to_percentage 100 81 = Inr 81"
proof -
  have f1: "fl (81 / 100) = 1823957849085051 / 2251799813685248"
    using fl_eqI[of "- 1" "81 / 100" 7295831396340204] by (simp add: power_int_minus)
  have f2: "fl (45598946227126275 / 562949953421312) = 81"
    using fl_eqI[of 6 "45598946227126275 / 562949953421312" 5699868278390784] by (simp add: power_int_minus)
  show ?thesis
    by (simp add: step_to_percentage_def int_truediv_def float_mul_int_def float_mul_def
        int_to_float_small finite_or_raise_small fl_numeral fl_one f1 f2)
qed

lemma step_to_percentage_100_82: "step_to_percentage 100 82 = Inr 82"
proof -
  have f1: "fl (41 / 50) = 7385903388887613 / 9007199254740992"
    using fl_eqI[of "- 1" "41 / 50" 7385903388887613] by (simp add: power_int_minus)
  have f2: "fl (184647584722190325 / 2251799813685248) = 82"
    using fl_eqI[of 6 "184647584722190325 / 2251799813685248" 5770237022568448] by (simp add: power_int_minus)
  show ?thesis
    by (simp add: step_to_percentage_def int_truediv_def float_mul_int_def float_mul_def
        int_to_float_small finite_or_raise_small fl_numeral fl_one f1 f2)
qed

lemma step_to_percentage_100_83: "step_to_percentage 100 83 = Inr 83"
proof -
  have f1: "fl (83 / 100) = 7475975381435023 / 9007199254740992"
    using fl_eqI[of "- 1" "83 / 100" 7475975381435023] by (simp add: power_int_minus)
  have f2: "fl (186899384535875575 / 2251799813685248) = 83"
    using fl_eqI[of 6 "186899384535875575 / 2251799813685248" 5840605766746112] by (simp add: power_int_minus)
  show ?thesis
    by (simp add: step_to_percentage_def int_truediv_def float_mul_int_def float_mul_def
        int_to_float_small finite_or_raise_small fl_numeral fl_one f1 f2)
qed

lemma step_to_percentage_100_84: "step_to_percentage 100 84 = Inr 84"
proof -
  have f1: "fl (21 / 25) = 7566047373982433 / 9007199254740992"
    using fl_eqI[of "- 1" "21 / 25" 7566047373982433] by (simp add: power_int_minus)
  have f2: "fl (189151184349560825 / 2251799813685248) = 84"
    using fl_eqI[of 6 "189151184349560825 / 2251799813685248" 5910974510923776] by (simp add: power_int_minus)
  show ?thesis
    by (simp add: step_to_percentage_def int_truediv_def float_mul_int_def float_mul_def
        int_to_float_small finite_or_raise_small fl_numeral fl_one f1 f2)
qed

lemma step_to_percentage_100_85: "step_to_percentage 100 85 = Inr 85"
proof -
  have f1: "fl (17 / 20) = 7656119366529843 / 9007199254740992"
    using fl_eqI[of "- 1" "17 / 20" 7656119366529843] by (simp add: power_int_minus)
  have f2: "fl (191402984163246075 / 2251799813685248) = 85"
    using fl_eqI[of 6 "191402984163246075 / 2251799813685248" 5981343255101440] by (simp add: power_int_minus)
  show ?thesis
    by (simp add: step_to_percentage_def int_truediv_def float_mul_int_def float_mul_def
        int_to_float_small finite_or_raise_small fl_numeral fl_one f1 f2)
qed

lemma step_to_percentage_100_86: "step_to_percentage 100 86 = Inr 86"
proof -
  have f1: "fl (43 / 50) = 7746191359077253 / 9007199254740992"
    using fl_eqI[of "- 1" "43 / 50" 7746191359077253] by (simp add: power_int_minus)
  have f2: "fl (193654783976931325 / 2251799813685248) = 86"
    using fl_eqI[of 6 "193654783976931325 / 2251799813685248" 6051711999279104] by (simp add: power_int_minus)
  show ?thesis
    by (simp add: step_to_percentage_def int_truediv_def float_mul_int_def float_mul_def
        int_to_float_small finite_or_raise_small fl_numeral fl_one f1 f2)
qed

lemma step_to_percentage_100_87: "step_to_percentage 100 87 = Inr 87"
proof -
  have f1: "fl (87 / 100) = 7836263351624663 / 9007199254740992"
    using fl_eqI[of "- 1" "87 / 100" 7836263351624663] by (simp add: power_int_minus)
  have f2: "fl (195906583790616575 / 2251799813685248) = 87"
    using fl_eqI[of 6 "195906583790616575 / 2251799813685248" 6122080743456768] by (simp add: power_int_minus)
  show ?thesis
    by (simp add: step_to_percentage_def int_truediv_def float_mul_int_def float_mul_def
        int_to_float_small finite_or_raise_small fl_numeral fl_one f1 f2)
qed

lemma step_to_percentage_100_88: "step_to_percentage 100 88 = Inr 88"
proof -
  have f1: "fl (22 / 25) = 7926335344172073 / 9007199254740992"
    using fl_eqI[of "- 1" "22 / 25" 7926335344172073] by (simp add: power_int_minus)
  have f2: "fl (198158383604301825 / 2251799813685248) = 88"
    using fl_eqI[of 6 "198158383604301825 / 2251799813685248" 6192449487634432] by (simp add: power_int_minus)
  show ?thesis
    by (simp add: step_to_percentage_def int_truediv_def float_mul_int_def float_mul_def
        int_to_float_small finite_or_raise_small fl_numeral fl_one f1 f2)
qed

lemma step_to_percentage_100_89: "step_to_percentage 100 89 = Inr 89"
proof -
  have f1: "fl (89 / 100) = 8016407336719483 / 9007199254740992"
    using fl_eqI[of "- 1" "89 / 100" 8016407336719483] by (simp add: power_int_minus)
  have f2: "fl (200410183417987075 / 2251799813685248) = 89"
    using fl_eqI[of 6 "200410183417987075 / 2251799813685248" 6262818231812096] by (simp add: power_int_minus)
  show ?thesis
    by (simp add: step_to_percentage_def int_truediv_def float_mul_int_def float_mul_def
        int_to_float_small finite_or_raise_small fl_numeral fl_one f1 f2)
qed

lemma step_to_percentage_100_90: "step_to_percentage 100 90 = Inr 90"
proof -
  have f1: "fl (9 / 10) = 8106479329266893 / 9007199254740992"
    using fl_eqI[of "- 1" "9 / 10" 8106479329266893] by (simp add: power_int_minus)
  have f2: "fl (202661983231672325 / 2251799813685248) = 90"
    using fl_eqI[of 6 "202661983231672325 / 2251799813685248" 6333186975989760] by (simp add: power_int_minus)
  show ?thesis
    by (simp add: step_to_percentage_def int_truediv_def float_mul_int_def float_mul_def
        int_to_float_small finite_or_raise_small fl_numeral fl_one f1 f2)
qed

lemma step_to_percentage_100_91: "step_to_percentage 100 91 = Inr 91"
proof -
  have f1: "fl (91 / 100) = 8196551321814303 / 9007199254740992"
    using fl_eqI[of "- 1" "91 / 100" 8196551321814303] by (simp add: power_int_minus)
  have f2: "fl (204913783045357575 / 2251799813685248) = 91"
    using fl_eqI[of 6 "204913783045357575 / 2251799813685248" 6403555720167424] by (simp add: power_int_minus)
  show ?thesis
    by (simp add: step_to_percentage_def int_truediv_def float_mul_int_def float_mul_def
        int_to_float_small finite_or_raise_small fl_numeral fl_one f1 f2)
qed

lemma step_to_percentage_100_92: "step_to_percentage 100 92 = Inr 92"
proof -
  have f1: "fl (23 / 25) = 8286623314361713 / 9007199254740992"
    using fl_eqI[of "- 1" "23 / 25" 8286623314361713] by (simp add: power_int_minus)
  have f2: "fl (207165582859042825 / 2251799813685248) = 92"
    using fl_eqI[of 6 "207165582859042825 / 2251799813685248" 6473924464345088] by (simp add: power_int_minus)
  show ?thesis
    by (simp add: step_to_percentage_def int_truediv_def float_mul_int_def float_mul_def
        int_to_float_small finite_or_raise_small fl_numeral fl_one f1 f2)
qed

lemma step_to_percentage_100_93: "step_to_percentage 100 93 = Inr 93"
proof -
  have f1: "fl (93 / 100) = 8376695306909123 / 9007199254740992"
    using fl_eqI[of "- 1" "93 / 100" 8376695306909123] by (simp add: power_int_minus)
  have f2: "fl (209417382672728075 / 2251799813685248) = 93"
    using fl_eqI[of 6 "209417382672728075 / 2251799813685248" 6544293208522752] by (simp add: power_int_minus)
  show ?thesis
    by (simp add: step_to_percentage_def int_truediv_def float_mul_int_def float_mul_def
        int_to_float_small finite_or_raise_small fl_numeral fl_one f1 f2)
qed

lemma step_to_percentage_100_94: "step_to_percentage 100 94 = Inr 94"
proof -
  have f1: "fl (47 / 50) = 2116691824864133 / 2251799813685248"
    using fl_eqI[of "- 1" "47 / 50" 8466767299456532] by (simp add: power_int_minus)
  have f2: "fl (52917295621603325 / 562949953421312) = 94"
    using fl_eqI[of 6 "52917295621603325 / 562949953421312" 6614661952700416] by (simp add: power_int_minus)
  show ?thesis
    by (simp add: step_to_percentage_def int_truediv_def float_mul_int_def float_mul_def
        int_to_float_small finite_or_raise_small fl_numeral fl_one f1 f2)
qed

lemma step_to_percentage_100_95: "step_to_percentage 100 95 = Inr 95"
proof -
  have f1: "fl (19 / 20) = 4278419646001971 / 4503599627370496"
    using fl_eqI[of "- 1" "19 / 20" 8556839292003942] by (simp add: power_int_minus)
  have f2: "fl (106960491150049275 / 1125899906842624) = 95"
    using fl_eqI[of 6 "106960491150049275 / 1125899906842624" 6685030696878080] by (simp add: power_int_minus)
  show ?thesis
    by (simp add: step_to_percentage_def int_truediv_def float_mul_int_def float_mul_def
        int_to_float_small finite_or_raise_small fl_numeral fl_one f1 f2)
qed

lemma step_to_percentage_100_96: "step_to_percentage 100 96 = Inr 96"
proof -
  have f1: "fl (24 / 25) = 1080863910568919 / 1125899906842624"
    using fl_eqI[of "- 1" "24 / 25" 8646911284551352] by (simp add: power_int_minus)
  have f2: "fl (27021597764222975 / 281474976710656) = 96"
    using fl_eqI[of 6 "27021597764222975 / 281474976710656" 6755399441055744] by (simp add: power_int_minus)
  show ?thesis
    by (simp add: step_to_percentage_def int_truediv_def float_mul_int_def float_mul_def
        int_to_float_small finite_or_raise_small fl_numeral fl_one f1 f2)
qed

lemma step_to_percentage_100_97: "step_to_percentage 100 97 = Inr 97"
proof -
  have f1: "fl (97 / 100) = 4368491638549381 / 4503599627370496"
    using fl_eqI[of "- 1" "97 / 100" 8736983277098762] by (simp add: power_int_minus)
  have f2: "fl (109212290963734525 / 1125899906842624) = 97"
    using fl_eqI[of 6 "109212290963734525 / 1125899906842624" 6825768185233408] by (simp add: power_int_minus)
  show ?thesis
    by (simp add: step_to_percentage_def int_truediv_def float_mul_int_def float_mul_def
        int_to_float_small finite_or_raise_small fl_numeral fl_one f1 f2)
qed

lemma step_to_percentage_100_98: "step_to_percentage 100 98 = Inr 98"
proof -
  have f1: "fl (49 / 50) = 2206763817411543 / 2251799813685248"
    using fl_eqI[of "- 1" "49 / 50" 8827055269646172] by (simp add: power_int_minus)
  have f2: "fl (55169095435288575 / 562949953421312) = 98"
    using fl_eqI[of 6 "55169095435288575 / 562949953421312" 6896136929411072] by (simp add: power_int_minus)
  show ?thesis
    by (simp add: step_to_percentage_def int_truediv_def float_mul_int_def float_mul_def
        int_to_float_small finite_or_raise_small fl_numeral fl_one f1 f2)
qed

lemma step_to_percentage_100_99: "step_to_percentage 100 99 = Inr 99"
proof -
  have f1: "fl (99 / 100) = 4458563631096791 / 4503599627370496"
    using fl_eqI[of "- 1" "99 / 100" 8917127262193582] by (simp add: power_int_minus)
  have f2: "fl (111464090777419775 / 1125899906842624) = 99"
    using fl_eqI[of 6 "111464090777419775 / 1125899906842624" 6966505673588736] by (simp add: power_int_minus)
  show ?thesis
    by (simp add: step_to_percentage_def int_truediv_def float_mul_int_def float_mul_def
        int_to_float_small finite_or_raise_small fl_numeral fl_one f1 f2)
qed

lemma step_to_percentage_100_100: "step_to_percentage 100 100 = Inr 100"
  by (simp add: step_to_percentage_def int_truediv_def float_mul_int_def float_mul_def
      int_to_float_small finite_or_raise_small fl_numeral fl_one)

lemmas step_to_percentage_100_values =
  step_to_percentage_100_1 step_to_percentage_100_2 step_to_percentage_100_3
  step_to_percentage_100_4 step_to_percentage_100_5 step_to_percentage_100_6
  step_to_percentage_100_7 step_to_percentage_100_8 step_to_percentage_100_9
  step_to_percentage_100_10 step_to_percentage_100_11 step_to_percentage_100_12
  step_to_percentage_100_13 step_to_percentage_100_14 step_to_percentage_100_15
  step_to_percentage_100_16 step_to_percentage_100_17 step_to_percentage_100_18
  step_to_percentage_100_19 step_to_percentage_100_20 step_to_percentage_100_21
  step_to_percentage_100_22 step_to_percentage_100_23 step_to_percentage_100_24
  step_to_percentage_100_25 step_to_percentage_100_26 step_to_percentage_100_27
  step_to_percentage_100_28 step_to_percentage_100_30 step_to_percentage_100_31
  step_to_percentage_100_32 step_to_percentage_100_33 step_to_percentage_100_34
  step_to_percentage_100_35 step_to_percentage_100_36 step_to_percentage_100_37
  step_to_percentage_100_38 step_to_percentage_100_39 step_to_percentage_100_40
  step_to_percentage_100_41 step_to_percentage_100_42 step_to_percentage_100_43
  step_to_percentage_100_44 step_to_percentage_100_45 step_to_percentage_100_46
  step_to_percentage_100_47 step_to_percentage_100_48 step_to_percentage_100_49
  step_to_percentage_100_50 step_to_percentage_100_51 step_to_percentage_100_52
  step_to_percentage_100_53 step_to_percentage_100_54 step_to_percentage_100_55
  step_to_percentage_100_56 step_to_percentage_100_59 step_to_percentage_100_60
  step_to_percentage_100_61 step_to_percentage_100_62 step_to_percentage_100_63
  step_to_percentage_100_64 step_to_percentage_100_65 step_to_percentage_100_66
  step_to_percentage_100_67 step_to_percentage_100_68 step_to_percentage_100_69
  step_to_percentage_100_70 step_to_percentage_100_71 step_to_percentage_100_72
  step_to_percentage_100_73 step_to_percentage_100_74 step_to_percentage_100_75
  step_to_percentage_100_76 step_to_percentage_100_77 step_to_percentage_100_78
  step_to_percentage_100_79 step_to_percentage_100_80 step_to_percentage_100_81
  step_to_percentage_100_82 step_to_percentage_100_83 step_to_percentage_100_84
  step_to_percentage_100_85 step_to_percentage_100_86 step_to_percentage_100_87
  step_to_percentage_100_88 step_to_percentage_100_89 step_to_percentage_100_90
  step_to_percentage_100_91 step_to_percentage_100_92 step_to_percentage_100_93
  step_to_percentage_100_94 step_to_percentage_100_95 step_to_percentage_100_96
  step_to_percentage_100_97 step_to_percentage_100_98 step_to_percentage_100_99
  step_to_percentage_100_100


lemma step_to_percentage_100:
  assumes "1 \<le> j" "j \<le> 100" "j \<noteq> 29" "j \<noteq> 57" "j \<noteq> 58"
  shows "step_to_percentage 100 j = Inr j"
proof -
  have "j \<in> {1..100}" using assms(1,2) by simp
  then show ?thesis using assms(3-5)
    by (simp add: simp_from_to) (elim disjE; simp add: step_to_percentage_100_values)
qed

lemma step_to_percentage_ratio:
  assumes "0 < s" "100 * k = j * s"
  shows "step_to_percentage s k = step_to_percentage 100 j"
proof -
  have "(of_int (100 * k) :: rat) = of_int (j * s)" using assms(2) by simp
  then have "100 * (of_int k :: rat) = of_int j * of_int s" by simp
  moreover have "(of_int s :: rat) \<noteq> 0" using assms(1) by simp
  ultimately have eq: "(of_int k :: rat) / of_int s = of_int j / of_int 100"
    by (simp add: field_simps)
  have "int_truediv k s = int_truediv j 100"
    unfolding int_truediv_def eq using assms(1) by simp
  then show ?thesis by (simp only: step_to_percentage_def)
qed

lemma step_to_percentage_exact:
  assumes k: "1 \<le> k" "k \<le> s" and s: "s \<le> 2 ^ 32"
    and n: "\<not> (s dvd 100 * k \<and> (100 * k) div s \<in> {29, 57, 58})"
  shows "step_to_percentage s k = Inr ((100 * k) div s)"
proof (cases "s dvd 100 * k")
  case True
  define j where "j = (100 * k) div s"
  have s0: "0 < s" using k by linarith
  have e: "100 * k = j * s" using True by (simp add: j_def)
  have "0 < j * s" using k(1) unfolding e[symmetric] by simp
  then have "0 < j" using s0 by (simp add: zero_less_mult_iff)
  then have j1: "1 \<le> j" by simp
  have "j * s \<le> 100 * s" using k(2) unfolding e[symmetric] by linarith
  then have j100: "j \<le> 100" using s0 by simp
  have "j \<noteq> 29" "j \<noteq> 57" "j \<noteq> 58" using n True by (auto simp: j_def)
  with j1 j100 have "step_to_percentage 100 j = Inr j" by (rule step_to_percentage_100)
  then show ?thesis using step_to_percentage_ratio[OF s0 e] by (simp add: j_def)
next
  case False
  then show ?thesis using step_to_percentage_bounds[OF k s] by auto
qed

lemma step_to_percentage_artefact:
  assumes "0 < s" "100 * k = j * s" "j = 29 \<or> j = 57 \<or> j = 58"
  shows "step_to_percentage s k = Inr (j - 1)"
  using assms(3) step_to_percentage_ratio[OF assms(1,2)]
  by (auto simp: step_to_percentage_100_29 step_to_percentage_100_57 step_to_percentage_100_58)

section \<open>The stepped encoder\<close>

text \<open>
  For up to \<open>2^32\<close> steps: the target step is an integer nearest to \<open>p * steps / 100\<close>,
  clamped to \<open>[1, steps]\<close>, and \<open>int(step * 65535 / steps)\<close> is the floor of the exact
  quotient, which lies in \<open>[1, 65535]\<close>.
\<close>

lemma int_truediv_floor:
  assumes a: "0 \<le> a" "a \<le> 65535 * s" and s: "1 \<le> s" "s \<le> 2 ^ 32"
  shows "\<exists>f. int_truediv a s = Inr f \<and> py_int f = a div s"
proof -
  define z :: rat where "z = of_int a / of_int s"
  define n where "n = a div s"
  define \<rho> where "\<rho> = a mod s"
  have s0: "0 < s" using s(1) by linarith
  have sr: "(0::rat) < of_int s" using s0 by simp
  have s32: "(of_int s :: rat) \<le> 2 ^ 32" using s(2) by (rule of_int_le_pow)
  have inv_s: "(1::rat) / 2 ^ 32 \<le> 1 / of_int s"
    using sr s32 by (intro divide_left_mono) simp_all
  have z0: "0 \<le> z" unfolding z_def using a(1) sr by simp
  have z_hi: "z \<le> 65535"
  proof -
    have "(of_int a :: rat) \<le> of_int (65535 * s)" using a(2) by (simp only: of_int_le_iff)
    then show ?thesis unfolding z_def using sr by (simp add: divide_le_eq)
  qed
  have z53: "z \<le> 2 ^ 53" using z_hi unfolding pow2_rat by linarith
  have td: "int_truediv a s = Inr (fl z)"
  proof -
    have "s \<noteq> 0" using s0 by simp
    then show ?thesis unfolding z_def using z0[unfolded z_def] z53[unfolded z_def]
      by (rule int_truediv_small)
  qed
  have zn: "z = of_int n + of_int \<rho> / of_int s"
    unfolding z_def n_def \<rho>_def using s0 by (rule div_mod_rat)
  have \<rho>: "0 \<le> \<rho>" "\<rho> \<le> s - 1" using s0 by (simp_all add: \<rho>_def)
  have n0: "0 \<le> n" unfolding n_def using a(1) s0 by (simp add: pos_imp_zdiv_nonneg_iff)
  have nr: "(0::rat) \<le> of_int n" using n0 by simp
  have "\<lfloor>fl z\<rfloor> = n \<and> 0 \<le> fl z"
  proof (cases "\<rho> = 0")
    case True
    then have zi: "z = of_int n" using zn by simp
    have "(of_int n :: rat) \<le> of_int (2 ^ 53)" using z53 unfolding zi by simp
    then have "n \<le> 2 ^ 53" by (simp only: of_int_le_iff)
    with n0 have "fl (of_int n) = of_int n" by (rule fl_of_int)
    then show ?thesis using nr by (simp add: zi)
  next
    case False
    then have "1 \<le> \<rho>" using \<rho>(1) by simp
    then have "(1::rat) \<le> of_int \<rho>" by simp
    then have \<rho>_lo: "1 / of_int s \<le> of_int \<rho> / (of_int s :: rat)"
      using sr by (intro divide_right_mono) simp_all
    have \<rho>_hi: "of_int \<rho> / of_int s \<le> 1 - 1 / (of_int s :: rat)"
    proof -
      have "(of_int \<rho> :: rat) \<le> of_int (s - 1)" using \<rho>(2) by (simp only: of_int_le_iff)
      then have "(of_int \<rho> :: rat) / of_int s \<le> of_int (s - 1) / of_int s"
        using sr by (intro divide_right_mono) simp_all
      also have "\<dots> = 1 - 1 / of_int s" using sr by (simp add: field_simps)
      finally show ?thesis .
    qed
    have z64: "1 / 2 ^ 64 \<le> z" using zn \<rho>_lo inv_s nr unfolding pow2_rat by linarith
    have "z - z / 2 ^ 53 \<le> fl z" "fl z \<le> z + z / 2 ^ 53" using z64 by (rule fl_rel_err')+
    then have "of_int n \<le> fl z" "fl z < of_int n + 1"
      using zn \<rho>_lo \<rho>_hi inv_s z_hi nr unfolding pow2_rat by linarith+
    then show ?thesis using nr by (simp add: floor_eq_iff)
  qed
  then have "py_int (fl z) = n" by (simp add: py_int_def)
  with td show ?thesis by (simp add: n_def)
qed

lemma target_step_float:
  assumes p: "1 \<le> p" "p \<le> 100" and s: "1 \<le> s" "s \<le> 2 ^ 32"
  shows "\<bar>fl (fl (of_int p / 100) * of_int s) - of_int (p * s) / 100\<bar> \<le> 1 / 2 ^ 19"
    and "target_step s p = Inr (max 1 (min s (py_round (fl (fl (of_int p / 100) * of_int s)))))"
proof -
  define x :: rat where "x = of_int p / 100"
  define f where "f = fl x"
  define z :: rat where "z = of_int (p * s) / 100"
  define w where "w = f * of_int s"
  define y where "y = fl w"
  have pr: "(1::rat) \<le> of_int p" "(of_int p :: rat) \<le> 100" using p by simp_all
  have sr: "(1::rat) \<le> of_int s" using s(1) by simp
  have s32: "(of_int s :: rat) \<le> 2 ^ 32" using s(2) by (rule of_int_le_pow)
  have x_lo: "1 / 100 \<le> x" and x1: "x \<le> 1" unfolding x_def using pr by simp_all
  have x0: "0 \<le> x" using x_lo by simp
  have x64: "1 / 2 ^ 64 \<le> x" using x_lo unfolding pow2_rat by linarith
  have f_lo: "x - x / 2 ^ 53 \<le> f" and f_hi: "f \<le> x + x / 2 ^ 53"
    unfolding f_def using x64 by (rule fl_rel_err')+
  have f0: "0 \<le> f" unfolding f_def using x0 by (rule fl_nonneg)
  have f1: "f \<le> 1" unfolding f_def using fl_le_int[of x 1] x0 x1 by simp
  have zx: "z = x * of_int s" by (simp add: z_def x_def)
  have z_lo: "1 / 100 \<le> z"
  proof -
    have "1 / 100 * 1 \<le> x * of_int s" using x_lo sr by (intro mult_mono) simp_all
    then show ?thesis by (simp add: zx)
  qed
  have z_hi: "z \<le> 2 ^ 32"
  proof -
    have "x * of_int s \<le> 1 * 2 ^ 32" using x0 x1 s32 sr by (intro mult_mono) simp_all
    then show ?thesis by (simp add: zx)
  qed
  have w_lo: "z - z / 2 ^ 53 \<le> w"
  proof -
    have "(x - x / 2 ^ 53) * of_int s \<le> f * of_int s"
      using f_lo sr by (intro mult_right_mono) simp_all
    then show ?thesis by (simp add: w_def zx algebra_simps)
  qed
  have w_hi: "w \<le> z + z / 2 ^ 53"
  proof -
    have "f * of_int s \<le> (x + x / 2 ^ 53) * of_int s"
      using f_hi sr by (intro mult_right_mono) simp_all
    then show ?thesis by (simp add: w_def zx algebra_simps)
  qed
  have w64: "1 / 2 ^ 64 \<le> w" using w_lo z_lo unfolding pow2_rat by linarith
  have y_lo: "w - w / 2 ^ 53 \<le> y" and y_hi: "y \<le> w + w / 2 ^ 53"
    unfolding y_def using w64 by (rule fl_rel_err')+
  have yz: "\<bar>y - z\<bar> \<le> 1 / 2 ^ 19"
    using y_lo y_hi w_lo w_hi z_lo z_hi unfolding pow2_rat by linarith
  have y0: "0 \<le> y" using y_lo w64 unfolding pow2_rat by linarith
  have y53: "y \<le> 2 ^ 53" using yz z_hi unfolding pow2_rat by linarith
  have td: "int_truediv p 100 = Inr f"
  proof -
    have "(100::int) \<noteq> 0" by simp
    moreover have "0 \<le> of_int p / (of_int 100 :: rat)" using x0 by (simp add: x_def)
    moreover have "x \<le> 2 ^ 53" using x1 unfolding pow2_rat by linarith
    then have "of_int p / (of_int 100 :: rat) \<le> 2 ^ 53" by (simp add: x_def)
    ultimately have "int_truediv p 100 = Inr (fl (of_int p / of_int 100))"
      by (rule int_truediv_small)
    then show ?thesis by (simp add: f_def x_def)
  qed
  have s53: "s \<le> 2 ^ 53" using s(2) by simp
  have fm: "float_mul_int f s = Inr y"
    using s(1) s53 y0 y53
    by (simp add: float_mul_int_def float_mul_def int_to_float_small finite_or_raise_small
        y_def w_def)
  have yy: "y = fl (fl (of_int p / 100) * of_int s)" by (simp add: y_def w_def f_def x_def)
  show "\<bar>fl (fl (of_int p / 100) * of_int s) - of_int (p * s) / 100\<bar> \<le> 1 / 2 ^ 19"
    using yz unfolding yy z_def .
  show "target_step s p = Inr (max 1 (min s (py_round (fl (fl (of_int p / 100) * of_int s)))))"
    using td fm unfolding yy by (simp add: target_step_def)
qed

lemma target_step_nearest:
  assumes p: "1 \<le> p" "p \<le> 100" and s: "1 \<le> s" "s \<le> 2 ^ 32"
  shows "\<exists>m. \<bar>100 * m - p * s\<bar> \<le> 50 \<and> target_step s p = Inr (max 1 (min s m))"
proof -
  define y where "y = fl (fl (of_int p / 100) * of_int s)"
  define z :: rat where "z = of_int (p * s) / 100"
  define m where "m = py_round y"
  have yz: "\<bar>y - z\<bar> \<le> 1 / 2 ^ 19" unfolding y_def z_def using p s by (rule target_step_float)
  have ts: "target_step s p = Inr (max 1 (min s m))"
    unfolding m_def y_def using p s by (rule target_step_float)
  have "\<bar>y - of_int m\<bar> \<le> 1 / 2" unfolding m_def by (rule py_round_err)
  then have "\<bar>100 * of_int m - z * 100\<bar> < 51" using yz unfolding pow2_rat by linarith
  moreover have "100 * of_int m - z * 100 = (of_int (100 * m - p * s) :: rat)"
    by (simp add: z_def)
  ultimately have "\<bar>(of_int (100 * m - p * s) :: rat)\<bar> < of_int 51" by simp
  then have "\<bar>100 * m - p * s\<bar> < 51" by (simp only: of_int_less_iff flip: of_int_abs)
  then have near: "\<bar>100 * m - p * s\<bar> \<le> 50" by simp
  with ts show ?thesis by blast
qed

text \<open>
  Where \<open>p * steps / 100\<close> is not halfway between two integers it is at least 1/100 away
  from halfway, so the float product rounds to the same integer as the exact one.  Where
  it is halfway and the float product is exactly that number, both round to the even
  neighbour; this is so for the percentages 25, 50 and 75, where \<open>p / 100\<close> is a double.
\<close>

lemma py_round_hundredths:
  fixes q :: int
  assumes "q mod 100 \<noteq> 50"
  shows "\<bar>of_int q / 100 - (of_int (py_round (of_int q / 100)) :: rat)\<bar> \<le> 49 / 100"
proof -
  define t where "t = q div 100"
  define \<rho> where "\<rho> = q mod 100"
  have \<rho>: "0 \<le> \<rho>" "\<rho> < 100" by (simp_all add: \<rho>_def)
  have "q = 100 * t + \<rho>" by (simp add: t_def \<rho>_def)
  then have "(of_int q :: rat) = of_int (100 * t + \<rho>)" by simp
  then have z: "(of_int q :: rat) / 100 = of_int t + of_int \<rho> / 100" by simp
  consider "\<rho> \<le> 49" | "51 \<le> \<rho>" using assms by (fold \<rho>_def) linarith
  then show ?thesis
  proof cases
    case 1
    then have a: "(0::rat) \<le> of_int \<rho>" "(of_int \<rho> :: rat) \<le> 49" using \<rho>(1) by simp_all
    then have "\<bar>of_int q / 100 - (of_int t :: rat)\<bar> < 1 / 2" unfolding z by simp
    then have "py_round (of_int q / 100) = t" by (rule py_round_near)
    then show ?thesis unfolding z using a by simp
  next
    case 2
    then have a: "(51::rat) \<le> of_int \<rho>" "(of_int \<rho> :: rat) < 100" using \<rho>(2) by simp_all
    then have "\<bar>of_int q / 100 - (of_int (t + 1) :: rat)\<bar> < 1 / 2" unfolding z by simp
    then have "py_round (of_int q / 100) = t + 1" by (rule py_round_near)
    then show ?thesis unfolding z using a by simp
  qed
qed

lemma float_product_quarters:
  assumes p: "p = 25 \<or> p = 50 \<or> p = 75" and s: "1 \<le> s" "s \<le> 2 ^ 32"
  shows "fl (fl (of_int p / 100) * of_int s) = of_int p / 100 * of_int s"
proof -
  have f1: "fl (1 / 4) = 1 / 4" using fl_dyadic[of 1 2] by simp
  have f2: "fl (1 / 2) = 1 / 2" using fl_dyadic[of 1 1] by simp
  have f3: "fl (3 / 4) = 3 / 4" using fl_dyadic[of 3 2] by simp
  have s53: "s < 2 ^ 53" "3 * s < 2 ^ 53" using s(2) by simp_all
  have s0: "0 < s" "0 < 3 * s" using s(1) by simp_all
  have g1: "fl (of_int s / 2 ^ 2) = of_int s / 2 ^ 2" using s0(1) s53(1) by (rule fl_dyadic) simp
  have g2: "fl (of_int s / 2 ^ 1) = of_int s / 2 ^ 1" using s0(1) s53(1) by (rule fl_dyadic) simp
  have g3: "fl (of_int (3 * s) / 2 ^ 2) = of_int (3 * s) / 2 ^ 2"
    using s0(2) s53(2) by (rule fl_dyadic) simp
  from p show ?thesis
  proof (elim disjE)
    assume "p = 25"
    then show ?thesis using g1 by (simp add: f1)
  next
    assume "p = 50"
    then show ?thesis using g2 by (simp add: f2)
  next
    assume "p = 75"
    then show ?thesis using g3 by (simp add: f3)
  qed
qed

lemma target_step_exact:
  assumes p: "1 \<le> p" "p \<le> 100" and s: "1 \<le> s" "s \<le> 2 ^ 32"
    and t: "p * s mod 100 = 50 \<longrightarrow> p = 25 \<or> p = 50 \<or> p = 75 \<or>
              fl (fl (of_int p / 100) * of_int s) = of_int p / 100 * of_int s"
  shows "target_step s p = Inr (clamp (py_round (of_int p / 100 * of_int s)) 1 s)"
proof -
  define y where "y = fl (fl (of_int p / 100) * of_int s)"
  define z :: rat where "z = of_int (p * s) / 100"
  have zz: "z = of_int p / 100 * of_int s" by (simp add: z_def)
  have yz: "\<bar>y - z\<bar> \<le> 1 / 2 ^ 19" unfolding y_def z_def using p s by (rule target_step_float)
  have ts: "target_step s p = Inr (max 1 (min s (py_round y)))"
    unfolding y_def using p s by (rule target_step_float)
  have "py_round y = py_round z"
  proof (cases "p * s mod 100 = 50")
    case True
    with t have d: "p = 25 \<or> p = 50 \<or> p = 75 \<or> y = z" unfolding y_def zz by blast
    have "y = z"
    proof (cases "p = 25 \<or> p = 50 \<or> p = 75")
      case True
      then show ?thesis unfolding y_def zz using s by (rule float_product_quarters)
    next
      case False
      with d show ?thesis by blast
    qed
    then show ?thesis by simp
  next
    case False
    then have "\<bar>z - of_int (py_round z)\<bar> \<le> 49 / 100" unfolding z_def by (rule py_round_hundredths)
    then have "\<bar>y - of_int (py_round z)\<bar> < 1 / 2" using yz unfolding pow2_rat by linarith
    then show ?thesis by (rule py_round_near)
  qed
  then show ?thesis using ts by (simp add: clamp_def zz)
qed

lemma analog_value_stepped_exact:
  assumes p: "1 \<le> p" "p \<le> 100" and s: "1 \<le> s" "s \<le> 2 ^ 32"
  shows "\<exists>m k. \<bar>100 * m - p * s\<bar> \<le> 50 \<and> k = max 1 (min s m) \<and>
           target_step s p = Inr k \<and> 1 \<le> k \<and> k \<le> s \<and>
           analog_value (Some s) p = Inr ((k * 65535) div s) \<and>
           1 \<le> (k * 65535) div s \<and> (k * 65535) div s \<le> 65535"
proof -
  from target_step_nearest[OF p s] obtain m
    where near: "\<bar>100 * m - p * s\<bar> \<le> 50"
      and ts: "target_step s p = Inr (max 1 (min s m))" by blast
  define k where "k = max 1 (min s m)"
  have k: "1 \<le> k" "k \<le> s" using s(1) by (simp_all add: k_def)
  have s0: "0 < s" using s(1) by linarith
  have hi: "k * 65535 \<le> 65535 * s" using k(2) by simp
  have lo: "s \<le> k * 65535"
  proof (cases "s \<le> 65535")
    case True
    then show ?thesis using k(1) by linarith
  next
    case False
    define q where "q = p * s"
    have "1 * s \<le> p * s" using p(1) s0 by (intro mult_right_mono) simp_all
    then have "s \<le> q" by (simp add: q_def)
    moreover have "\<bar>100 * m - q\<bar> \<le> 50" using near by (simp add: q_def)
    ultimately have "s - 50 \<le> 100 * m" by linarith
    then have "s \<le> m * 65535" using False by linarith
    then show ?thesis using k(1) s0 by (simp add: k_def max_def min_def)
  qed
  from int_truediv_floor[of "k * 65535" s] k hi s
  obtain f where f: "int_truediv (k * 65535) s = Inr f" "py_int f = (k * 65535) div s"
    by auto
  have av: "analog_value (Some s) p = Inr ((k * 65535) div s)"
    using ts f by (simp add: analog_value_def k_def)
  have "0 < (k * 65535) div s" using lo s0 by (simp add: pos_imp_zdiv_pos_iff)
  then have "1 \<le> (k * 65535) div s" by simp
  moreover have "(k * 65535) div s \<le> 65535"
  proof -
    have "(k * 65535) div s \<le> (65535 * s) div s" using hi s0 by (intro zdiv_mono1) simp_all
    then show ?thesis using s0 by simp
  qed
  ultimately show ?thesis using near ts k av unfolding k_def by blast
qed

section \<open>The raw value of a step decodes to that step\<close>

lemma current_step_recovers:
  assumes k: "1 \<le> k" "k \<le> s" and s: "s \<le> 2 ^ 32" and r: "1 \<le> r" "r \<le> 65535"
    and lo: "131070 * k \<le> 2 * (r * s) + 65535" and hi: "2 * (r * s) + 65535 < 131070 * k + 131070"
  shows "current_step s r = Inr k"
proof -
  have s1: "1 \<le> s" using k by linarith
  define d where "d = 2 * (r * s) + 65535 - 131070 * k"
  have "2 * r * s + 65535 = 131070 * k + d" by (simp add: d_def)
  moreover have "0 \<le> d" "d < 131070" using lo hi by (simp_all add: d_def)
  ultimately have "(2 * r * s + 65535) div 131070 = k" by (rule int_div_pos_eq)
  then have "current_step s r = Inr (min s (max 1 k))"
    using current_step_exact[OF s1 s r] by simp
  then show ?thesis using k by simp
qed

text \<open>
  The remainder of \<open>k * 65535\<close> by the step count is what the encoder's truncation
  drops.  It stays below half of 65535 for up to 32768 steps, and also for 32769 and
  32770 steps, where it is a multiple of 3 and of 5.
\<close>

lemma floor_residue_small:
  fixes k s :: int
  assumes "0 < s" "s \<le> 32770"
  shows "(k * 65535) mod s \<le> 32767"
proof -
  define \<rho> where "\<rho> = (k * 65535) mod s"
  have \<rho>: "0 \<le> \<rho>" "\<rho> < s" using assms(1) by (simp_all add: \<rho>_def)
  consider "s \<le> 32768" | "s = 32769" | "s = 32770" using assms by linarith
  then have "\<rho> \<le> 32767"
  proof cases
    case 1
    then show ?thesis using \<rho> by linarith
  next
    case 2
    have "(3::int) dvd 32769" by simp
    then have "(k * 65535) mod 32769 mod 3 = (k * 65535) mod 3" by (rule mod_mod_cancel)
    moreover have "(3::int) dvd k * 65535" by simp
    ultimately have "\<rho> mod 3 = 0" by (simp add: \<rho>_def 2)
    then obtain q where q: "\<rho> = 3 * q" by (auto simp: mod_eq_0_iff_dvd)
    then have "q \<le> 10922" using \<rho> 2 by linarith
    then show ?thesis using q by linarith
  next
    case 3
    have "(5::int) dvd 32770" by simp
    then have "(k * 65535) mod 32770 mod 5 = (k * 65535) mod 5" by (rule mod_mod_cancel)
    moreover have "(5::int) dvd k * 65535" by simp
    ultimately have "\<rho> mod 5 = 0" by (simp add: \<rho>_def 3)
    then obtain q where q: "\<rho> = 5 * q" by (auto simp: mod_eq_0_iff_dvd)
    then have "q \<le> 6553" using \<rho> 3 by linarith
    then show ?thesis using q by linarith
  qed
  then show ?thesis by (simp only: \<rho>_def)
qed

lemma raw_of_step_floor:
  fixes k s :: int
  assumes k: "1 \<le> k" "k \<le> s" and s: "s \<le> 32770"
  defines "r \<equiv> (k * 65535) div s"
  shows "1 \<le> r" "r \<le> 65535" "131070 * k \<le> 2 * (r * s) + 65535"
    "2 * (r * s) + 65535 < 131070 * k + 131070"
proof -
  have s0: "0 < s" using k by linarith
  define \<rho> where "\<rho> = (k * 65535) mod s"
  have \<rho>: "0 \<le> \<rho>" "\<rho> \<le> 32767"
    using s0 s by (simp_all add: \<rho>_def floor_residue_small)
  have e: "r * s + \<rho> = k * 65535" by (simp add: r_def \<rho>_def)
  show "131070 * k \<le> 2 * (r * s) + 65535" using e \<rho> by linarith
  show "2 * (r * s) + 65535 < 131070 * k + 131070" using e \<rho> by linarith
  have "s \<le> k * 65535" using k s by linarith
  then have "0 < r" unfolding r_def using s0 by (simp add: pos_imp_zdiv_pos_iff)
  then show "1 \<le> r" by simp
  have "k * 65535 \<le> 65535 * s" using k(2) by simp
  then have "(k * 65535) div s \<le> (65535 * s) div s" using s0 by (intro zdiv_mono1) simp_all
  then show "r \<le> 65535" using s0 by (simp add: r_def)
qed

text \<open>
  The rounded value of \<open>k * 65535 / steps\<close> is within \<open>steps / 2\<close> of it.  With 65536
  steps the distance reaches half of 65536 only at step 32768.
\<close>

lemma raw_of_step_round:
  fixes k s :: int
  assumes k: "1 \<le> k" "k \<le> s" and s: "s \<le> 65536" and t: "s = 65536 \<longrightarrow> k \<noteq> 32768"
  defines "r \<equiv> py_round (of_int (k * 65535) / of_int s)"
  shows "1 \<le> r" "r \<le> 65535" "131070 * k \<le> 2 * (r * s) + 65535"
    "2 * (r * s) + 65535 < 131070 * k + 131070"
proof -
  have s0: "0 < s" using k by linarith
  have sr: "(0::rat) < of_int s" using s0 by simp
  define z :: rat where "z = of_int (k * 65535) / of_int s"
  have "\<bar>z - of_int r\<bar> \<le> 1 / 2" unfolding r_def z_def by (rule py_round_err)
  then have "\<bar>z - of_int r\<bar> * of_int s \<le> 1 / 2 * of_int s"
    using sr by (intro mult_right_mono) simp_all
  moreover have "\<bar>z - of_int r\<bar> * of_int s = \<bar>(z - of_int r) * of_int s\<bar>"
    using sr by (simp add: abs_mult)
  moreover have "(z - of_int r) * of_int s = of_int (k * 65535 - r * s)"
    using sr by (simp add: z_def algebra_simps)
  ultimately have "2 * \<bar>(of_int (k * 65535 - r * s) :: rat)\<bar> \<le> of_int s" by simp
  then have "(of_int (2 * \<bar>k * 65535 - r * s\<bar>) :: rat) \<le> of_int s" by simp
  then have two: "2 * \<bar>k * 65535 - r * s\<bar> \<le> s" by (simp only: of_int_le_iff)
  define D where "D = k * 65535 - r * s"
  have "D \<le> \<bar>D\<bar>" "- D \<le> \<bar>D\<bar>" by simp_all
  moreover have "2 * \<bar>D\<bar> \<le> s" using two by (simp only: D_def)
  ultimately have d2: "2 * D \<le> s" "- s \<le> 2 * D" by linarith+
  have D: "- 32767 \<le> D" "D \<le> 32767"
  proof -
    have b: "- 32768 \<le> D" "D \<le> 32768" using d2 s by linarith+
    have "D \<noteq> 32768 \<and> D \<noteq> - 32768"
    proof (cases "s = 65536")
      case False
      then have "s \<le> 65535" using s by simp
      then show ?thesis using d2 by linarith
    next
      case True
      define a where "a = k - r"
      have Da: "D = 65536 * a - k" by (simp add: D_def a_def True)
      have k': "k \<le> 65536" using k(2) True by simp
      have "D \<noteq> 32768"
      proof
        assume "D = 32768"
        then have e: "k = 65536 * a - 32768" using Da by simp
        have "1 \<le> a" using e k(1) by linarith
        moreover have "a \<le> 1" using e k' by linarith
        ultimately have "k = 32768" using e by simp
        with t True show False by simp
      qed
      moreover have "D \<noteq> - 32768"
      proof
        assume "D = - 32768"
        then have e: "k = 65536 * a + 32768" using Da by simp
        have "0 \<le> a" using e k(1) by linarith
        moreover have "a \<le> 0" using e k' by linarith
        ultimately have "k = 32768" using e by simp
        with t True show False by simp
      qed
      ultimately show ?thesis ..
    qed
    with b show "- 32767 \<le> D" "D \<le> 32767" by linarith+
  qed
  define M where "M = r * s"
  have DM: "D = k * 65535 - M" by (simp add: D_def M_def)
  show "131070 * k \<le> 2 * (r * s) + 65535" using D(2) DM unfolding M_def by linarith
  show "2 * (r * s) + 65535 < 131070 * k + 131070" using D(1) DM unfolding M_def by linarith
  have "0 < M" using D(2) DM k(1) by linarith
  then have "0 < r" unfolding M_def using s0 by (simp add: zero_less_mult_iff)
  then show "1 \<le> r" by simp
  have "2 * M \<le> 131070 * s + s" using d2(2) DM k(2) by linarith
  then have "r * s < 65536 * s" using s0 by (simp add: M_def)
  then have "r < 65536" using s0 by simp
  then show "r \<le> 65535" by simp
qed

section \<open>Values at the inputs of the examples\<close>

lemma analog_value_4_25: "analog_value (Some 4) 25 = Inr 16383"
proof -
  have f1: "fl (1 / 4) = 1 / 4"
    using fl_eqI[of "- 2" "1 / 4" 4503599627370496] by (simp add: power_int_minus)
  have f2: "fl (65535 / 4) = 65535 / 4"
    using fl_eqI[of 13 "65535 / 4" 9007061815787520] by (simp add: power_int_minus)
  have t3: "py_int (65535 / 4) = 16383"
    by (rule py_int_eqI) simp_all
  show ?thesis
    by (simp add: analog_value_def target_step_def int_truediv_def float_mul_int_def float_mul_def
        int_to_float_small finite_or_raise_small fl_numeral fl_one f1 f2 t3)
qed

lemma step_to_percentage_6_1: "step_to_percentage 6 1 = Inr 16"
proof -
  have f1: "fl (1 / 6) = 6004799503160661 / 36028797018963968"
    using fl_eqI[of "- 3" "1 / 6" 6004799503160661] by (simp add: power_int_minus)
  have f2: "fl (150119987579016525 / 9007199254740992) = 2345624805922133 / 140737488355328"
    using fl_eqI[of 4 "150119987579016525 / 9007199254740992" 4691249611844266] by (simp add: power_int_minus)
  have t3: "py_int (2345624805922133 / 140737488355328) = 16"
    by (rule py_int_eqI) simp_all
  show ?thesis
    by (simp add: step_to_percentage_def int_truediv_def float_mul_int_def float_mul_def
        int_to_float_small finite_or_raise_small fl_numeral fl_one f1 f2 t3)
qed

lemma target_step_45_70: "target_step 45 70 = Inr 31"
proof -
  have f1: "fl (7 / 10) = 3152519739159347 / 4503599627370496"
    using fl_eqI[of "- 1" "7 / 10" 6305039478318694] by (simp add: power_int_minus)
  have f2: "fl (141863388262170615 / 4503599627370496) = 8866461766385663 / 281474976710656"
    using fl_eqI[of 4 "141863388262170615 / 4503599627370496" 8866461766385663] by (simp add: power_int_minus)
  have r3: "py_round (8866461766385663 / 281474976710656) = 31"
    by (rule py_round_near) simp
  show ?thesis
    by (simp add: target_step_def int_truediv_def float_mul_int_def float_mul_def
        int_to_float_small finite_or_raise_small fl_numeral fl_one f1 f2 r3)
qed

lemma target_step_3_50: "target_step 3 50 = Inr 2"
proof -
  have f1: "fl (1 / 2) = 1 / 2"
    using fl_eqI[of "- 1" "1 / 2" 4503599627370496] by (simp add: power_int_minus)
  have f2: "fl (3 / 2) = 3 / 2"
    using fl_eqI[of 0 "3 / 2" 6755399441055744] by (simp add: power_int_minus)
  have r3: "py_round (3 / 2) = 2"
    by (simp add: py_round_cases)
  show ?thesis
    by (simp add: target_step_def int_truediv_def float_mul_int_def float_mul_def
        int_to_float_small finite_or_raise_small fl_numeral fl_one f1 f2 r3)
qed

lemma spec_step_45_70: "clamp (py_round (of_int 70 / 100 * of_int 45)) 1 45 = 32"
proof -
  have "py_round (63 / 2) = 32" by (simp add: py_round_cases)
  then show ?thesis by (simp add: clamp_def)
qed

lemma decode_stepped:
  "r \<noteq> 0 \<Longrightarrow> decode (Some s) r = bind (current_step s r) (step_to_percentage s)"
  by (simp add: decode_def stepped_percentage_def)

lemma decode_stepless: "r \<noteq> 0 \<Longrightarrow> decode None r = stepless_percentage r"
  by (simp add: decode_def)

lemma decode_3_43690: "decode (Some 3) 43690 = Inr 66"
proof -
  have "current_step 3 43690 = Inr (min 3 (max 1 ((2 * 43690 * 3 + 65535) div 131070)))"
    by (rule current_step_exact) simp_all
  then have cs: "current_step 3 43690 = Inr 2" by simp
  have "step_to_percentage 3 2 = Inr 66" using step_to_percentage_bounds[of 2 3] by auto
  with cs show ?thesis by (simp add: decode_stepped)
qed

lemma decode_None_1000: "decode None 1000 = Inr 1"
  using stepless_percentage_exact[of 1000] by (simp add: decode_stepless)

lemma spec_decode_3_43690: "spec_decode (Some 3) 43690 = 67"
proof -
  have "py_round (200 / 3) = 67" by (rule py_round_near) simp
  then show ?thesis by (simp add: spec_decode_def clamp_def)
qed

lemma spec_decode_None_1000: "spec_decode None 1000 = 2"
proof -
  have "py_round (20000 / 13107) = 2" by (rule py_round_near) simp
  then show ?thesis by (simp add: spec_decode_def clamp_def)
qed

lemma spec_encode_4_25: "spec_encode (Some 4) 25 = 16384"
proof -
  have "py_round (65535 / 4) = 16384" by (rule py_round_near) simp
  then show ?thesis by (simp add: spec_encode_def clamp_def)
qed

lemma spec_encode_None_2: "spec_encode None 2 = 1311"
proof -
  have "py_round (13107 / 10) = 1311" by (rule py_round_near) simp
  then show ?thesis by (simp add: spec_encode_def)
qed

lemma spec_turn_on_default_6: "spec_turn_on_default (Some 6) = 17"
proof -
  have "py_round (50 / 3) = 17" by (rule py_round_near) simp
  then show ?thesis by (simp add: spec_turn_on_default_def)
qed

section \<open>The decoder\<close>

text \<open>
  The step in exact arithmetic: \<open>round(r / (65535 / steps))\<close> is the integer nearest to
  \<open>r * steps / 65535\<close>, and the code computes the same step.
\<close>

lemma py_round_step:
  "py_round (of_int r / (65535 / of_int s)) = (2 * r * s + 65535) div 131070"
proof -
  have "\<bar>of_int (r * s) / 65535 - (of_int ((2 * r * s + 65535) div 131070) :: rat)\<bar>
          \<le> 65534 / 131070"
    by (rule nearest_step)
  moreover have "(of_int r :: rat) / (65535 / of_int s) = of_int (r * s) / 65535" by simp
  ultimately have "\<bar>of_int r / (65535 / of_int s) - (of_int ((2 * r * s + 65535) div 131070) :: rat)\<bar>
          < 1 / 2" by simp
  then show ?thesis by (rule py_round_near)
qed

lemma decode_stepped_exact:
  assumes r: "1 \<le> r" "r \<le> 65535" and s: "1 \<le> s" "s \<le> 2 ^ 32"
    and k: "k = min s (max 1 ((2 * r * s + 65535) div 131070))"
    and n: "\<not> (s dvd 100 * k \<and> (100 * k) div s \<in> {29, 57, 58})"
  shows "current_step s r = Inr k" "decode (Some s) r = Inr ((100 * k) div s)"
    "k = clamp (py_round (of_int r / (65535 / of_int s))) 1 s"
proof -
  show cs: "current_step s r = Inr k" unfolding k using s r by (rule current_step_exact)
  have kb: "1 \<le> k" "k \<le> s" using s(1) by (simp_all add: k)
  have "step_to_percentage s k = Inr ((100 * k) div s)"
    using kb s(2) n by (rule step_to_percentage_exact)
  then show "decode (Some s) r = Inr ((100 * k) div s)"
    using cs r(1) by (simp add: decode_stepped)
  have "clamp (py_round (of_int r / (65535 / of_int s))) 1 s =
      clamp ((2 * r * s + 65535) div 131070) 1 s" by (simp only: py_round_step)
  also have "\<dots> = k" unfolding k clamp_def using s(1) by linarith
  finally show "k = clamp (py_round (of_int r / (65535 / of_int s))) 1 s" by (rule sym)
qed

text \<open>
  The three quotients whose percentage is one less than \<open>\<lfloor>100 step / steps\<rfloor>\<close>, at one input:
  with 100 steps the raw value 19005 is step 29, and the percentage reported is 28.
\<close>

lemma decode_100_19005: "current_step 100 19005 = Inr 29 \<and> decode (Some 100) 19005 = Inr 28"
proof -
  have "current_step 100 19005 = Inr (min 100 (max 1 ((2 * 19005 * 100 + 65535) div 131070)))"
    by (rule current_step_exact) simp_all
  then have cs: "current_step 100 19005 = Inr 29" by simp
  then show ?thesis by (simp add: decode_stepped step_to_percentage_100_29)
qed

text \<open>
  C3, as the code has it.  For a raw value \<open>r\<close> in \<open>[1, 65535]\<close>: in stepless mode the
  percentage is \<open>\<lfloor>100 r / 65535\<rfloor>\<close> clamped to \<open>[1, 100]\<close>; in stepped mode with up to
  \<open>2^32\<close> steps the step \<open>k\<close> is \<open>round(r / (65535 / steps))\<close> clamped to \<open>[1, steps]\<close>, the
  integer nearest to \<open>r * steps / 65535\<close>, and the percentage is \<open>int((k / steps) * 100)\<close>:
  truncated, not rounded, so it is exactly \<open>\<lfloor>100 k / steps\<rfloor>\<close>.  Left out are the steps
  with \<open>k / steps\<close> equal to 29/100, 57/100 or 58/100, where the float product falls just
  below the integer.  With 3 steps the raw value 43690 decodes to 66.
\<close>

theorem decoder_truncates:
  "1 \<le> r \<Longrightarrow> r \<le> 65535 \<Longrightarrow>
     decode None r = Inr (max 1 (min 100 ((r * 100) div 65535))) \<and>
     (1 \<le> s \<and> s \<le> 2 ^ 32 \<and> k = clamp (py_round (of_int r / (65535 / of_int s))) 1 s \<and>
      \<not> (s dvd 100 * k \<and> (100 * k) div s \<in> {29, 57, 58}) \<longrightarrow>
        k = min s (max 1 ((2 * r * s + 65535) div 131070)) \<and>
        current_step s r = Inr k \<and>
        decode (Some s) r = Inr ((100 * k) div s)) \<and>
     decode (Some 3) 43690 = Inr 66"
proof (intro conjI impI)
  assume r: "1 \<le> r" "r \<le> 65535"
  then have r0: "r \<noteq> 0" by simp
  show "decode None r = Inr (max 1 (min 100 ((r * 100) div 65535)))"
    using r r0 by (simp add: decode_stepless stepless_percentage_exact)
  show "decode (Some 3) 43690 = Inr 66" by (rule decode_3_43690)
  assume a: "1 \<le> s \<and> s \<le> 2 ^ 32 \<and> k = clamp (py_round (of_int r / (65535 / of_int s))) 1 s \<and>
      \<not> (s dvd 100 * k \<and> (100 * k) div s \<in> {29, 57, 58})"
  then have s: "1 \<le> s" "s \<le> 2 ^ 32" by simp_all
  from a have n: "\<not> (s dvd 100 * k \<and> (100 * k) div s \<in> {29, 57, 58})" by blast
  from a have "k = clamp (py_round (of_int r / (65535 / of_int s))) 1 s" by blast
  then have "k = clamp ((2 * r * s + 65535) div 131070) 1 s" by (simp only: py_round_step)
  then show k: "k = min s (max 1 ((2 * r * s + 65535) div 131070))"
    unfolding clamp_def using s(1) by linarith
  show "current_step s r = Inr k" using r s k n by (rule decode_stepped_exact)
  show "decode (Some s) r = Inr ((100 * k) div s)" using r s k n by (rule decode_stepped_exact)
qed

theorem decoder_truncates_witness:
  "decode None 1000 = Inr 1 \<and> current_step 3 43690 = Inr 2 \<and>
   decode (Some 3) 43690 = Inr 66 \<and> decode (Some 4) 16383 = Inr 25 \<and>
   decode (Some 4) 65535 = Inr 100"
proof -
  have "py_round (21844 / 21845) = 1" by (rule py_round_near) simp
  then show ?thesis
    using decoder_truncates[of 1000 4 4] decoder_truncates[of 43690 3 2]
      decoder_truncates[of 16383 4 1] decoder_truncates[of 65535 4 4]
    by (simp add: clamp_def)
qed

theorem decoder_rounds_counterexample:
  "decode (Some 3) 43690 = Inr 66 \<and> spec_decode (Some 3) 43690 = 67 \<and>
   decode None 1000 = Inr 1 \<and> spec_decode None 1000 = 2"
  by (simp add: decode_3_43690 spec_decode_3_43690 decode_None_1000 spec_decode_None_1000)

section \<open>The percentage is recomputed from the hub\<close>

lemma run_snoc: "run cfg h (es @ [e]) = apply_event cfg (run cfg h es) e"
  by (simp add: run_def)

text \<open>
  C4, as the code has it.  The state of the model is the hub alone: the handlers take the
  configuration and return a hub, so there is nowhere a speed or a percentage could be
  kept.  After any sequence of commands and hub changes the percentage is computed from
  the value \<open>r\<close> the speed join holds at that moment: 0 for 0, and for \<open>r\<close> in
  \<open>[1, 65535]\<close> the truncated values (\<open>\<lfloor>100 r / 65535\<rfloor>\<close> clamped to \<open>[1, 100]\<close> in stepless
  mode; \<open>\<lfloor>100 k / steps\<rfloor>\<close> for the step \<open>k\<close> nearest to \<open>r * steps / 65535\<close> in stepped mode,
  the three quotients 29/100, 57/100 and 58/100 left out), not the rounded ones of the
  specification.  Right after the hub changes the join to \<open>v\<close> it holds \<open>v\<close>, and after a
  turn-off it holds 0, whatever came before; two fans with the same step count whose
  speed joins hold the same value report the same percentage, whatever their histories,
  names and other joins.
\<close>

theorem percentage_no_cache:
  "(get_analog (run cfg h es) (speed_join cfg) = 0 \<longrightarrow>
      percentage cfg (run cfg h es) = Inr 0) \<and>
   (r = get_analog (run cfg h es) (speed_join cfg) \<and> 1 \<le> r \<and> r \<le> 65535 \<longrightarrow>
      (speed_steps cfg = None \<longrightarrow>
         percentage cfg (run cfg h es) = Inr (max 1 (min 100 ((r * 100) div 65535)))) \<and>
      (speed_steps cfg = Some s \<and> 1 \<le> s \<and> s \<le> 2 ^ 32 \<and>
       k = min s (max 1 ((2 * r * s + 65535) div 131070)) \<and>
       \<not> (s dvd 100 * k \<and> (100 * k) div s \<in> {29, 57, 58}) \<longrightarrow>
         percentage cfg (run cfg h es) = Inr ((100 * k) div s))) \<and>
   get_analog (run cfg h (es @ [Hub_analog (speed_join cfg) v])) (speed_join cfg) = v \<and>
   get_analog (run cfg h (es @ [Turn_off])) (speed_join cfg) = 0 \<and>
   (speed_steps cfg = speed_steps cfg' \<and>
    get_analog (run cfg h es) (speed_join cfg) = get_analog (run cfg' h' es') (speed_join cfg')
      \<longrightarrow> percentage cfg (run cfg h es) = percentage cfg' (run cfg' h' es'))"
proof (intro conjI impI)
  show "get_analog (run cfg h (es @ [Hub_analog (speed_join cfg) v])) (speed_join cfg) = v"
    by (simp add: run_snoc apply_event_def get_analog_def)
  show "get_analog (run cfg h (es @ [Turn_off])) (speed_join cfg) = 0"
    by (simp add: run_snoc apply_event_def get_analog_def async_turn_off_def set_analog_def)
  {
    assume "get_analog (run cfg h es) (speed_join cfg) = 0"
    then show "percentage cfg (run cfg h es) = Inr 0" by (simp add: percentage_def)
  }
  {
    assume "speed_steps cfg = speed_steps cfg' \<and>
      get_analog (run cfg h es) (speed_join cfg) = get_analog (run cfg' h' es') (speed_join cfg')"
    then show "percentage cfg (run cfg h es) = percentage cfg' (run cfg' h' es')"
      by (simp add: percentage_def)
  }
  assume a: "r = get_analog (run cfg h es) (speed_join cfg) \<and> 1 \<le> r \<and> r \<le> 65535"
  then have r: "1 \<le> r" "r \<le> 65535"
    and p: "percentage cfg (run cfg h es) = decode (speed_steps cfg) r"
    by (simp_all add: percentage_def)
  {
    assume "speed_steps cfg = None"
    then show "percentage cfg (run cfg h es) = Inr (max 1 (min 100 ((r * 100) div 65535)))"
      using p r by (simp add: decode_stepless stepless_percentage_exact)
  }
  assume b: "speed_steps cfg = Some s \<and> 1 \<le> s \<and> s \<le> 2 ^ 32 \<and>
       k = min s (max 1 ((2 * r * s + 65535) div 131070)) \<and>
       \<not> (s dvd 100 * k \<and> (100 * k) div s \<in> {29, 57, 58})"
  then have s: "1 \<le> s" "s \<le> 2 ^ 32" by simp_all
  from b have k: "k = min s (max 1 ((2 * r * s + 65535) div 131070))" by blast
  from b have n: "\<not> (s dvd 100 * k \<and> (100 * k) div s \<in> {29, 57, 58})" by blast
  have "decode (Some s) r = Inr ((100 * k) div s)" using r s k n by (rule decode_stepped_exact)
  moreover from b have "speed_steps cfg = Some s" by blast
  ultimately show "percentage cfg (run cfg h es) = Inr ((100 * k) div s)" using p by simp
qed

theorem percentage_no_cache_witness:
  "percentage
     \<lparr>conf_name = ''a'', speed_join = 1, speed_steps = Some 3, reverse_join = None\<rparr>
     (run \<lparr>conf_name = ''a'', speed_join = 1, speed_steps = Some 3, reverse_join = None\<rparr>
        \<lparr>analog = (\<lambda>_. 5), digital = (\<lambda>_. True), available = True, written = []\<rparr>
        [Turn_off, Hub_analog 1 43690]) = Inr 66 \<and>
   percentage
     \<lparr>conf_name = ''b'', speed_join = 4, speed_steps = None, reverse_join = Some 2\<rparr>
     (run \<lparr>conf_name = ''b'', speed_join = 4, speed_steps = None, reverse_join = Some 2\<rparr>
        \<lparr>analog = (\<lambda>_. 7), digital = (\<lambda>_. False), available = False, written = []\<rparr>
        [Set_direction ''reverse'', Hub_analog 4 1000]) = Inr 1 \<and>
   percentage
     \<lparr>conf_name = ''b'', speed_join = 4, speed_steps = None, reverse_join = Some 2\<rparr>
     (run \<lparr>conf_name = ''b'', speed_join = 4, speed_steps = None, reverse_join = Some 2\<rparr>
        \<lparr>analog = (\<lambda>_. 7), digital = (\<lambda>_. False), available = False, written = []\<rparr>
        [Hub_analog 4 1000, Turn_off]) = Inr 0"
  using
    percentage_no_cache
      [where cfg = "\<lparr>conf_name = ''a'', speed_join = 1, speed_steps = Some 3, reverse_join = None\<rparr>"
         and h = "\<lparr>analog = (\<lambda>_. 5), digital = (\<lambda>_. True), available = True, written = []\<rparr>"
         and es = "[Turn_off, Hub_analog 1 43690]" and r = 43690 and s = 3 and k = 2
         and cfg' = "\<lparr>conf_name = ''a'', speed_join = 1, speed_steps = Some 3, reverse_join = None\<rparr>"
         and h' = "\<lparr>analog = (\<lambda>_. 5), digital = (\<lambda>_. True), available = True, written = []\<rparr>"
         and es' = "[Turn_off, Hub_analog 1 43690]" and v = 0]
    percentage_no_cache
      [where cfg = "\<lparr>conf_name = ''b'', speed_join = 4, speed_steps = None, reverse_join = Some 2\<rparr>"
         and h = "\<lparr>analog = (\<lambda>_. 7), digital = (\<lambda>_. False), available = False, written = []\<rparr>"
         and es = "[Set_direction ''reverse'', Hub_analog 4 1000]" and r = 1000 and s = 3 and k = 2
         and cfg' = "\<lparr>conf_name = ''a'', speed_join = 1, speed_steps = Some 3, reverse_join = None\<rparr>"
         and h' = "\<lparr>analog = (\<lambda>_. 5), digital = (\<lambda>_. True), available = True, written = []\<rparr>"
         and es' = "[Turn_off, Hub_analog 1 43690]" and v = 0]
    percentage_no_cache
      [where cfg = "\<lparr>conf_name = ''b'', speed_join = 4, speed_steps = None, reverse_join = Some 2\<rparr>"
         and h = "\<lparr>analog = (\<lambda>_. 7), digital = (\<lambda>_. False), available = False, written = []\<rparr>"
         and es = "[Hub_analog 4 1000, Turn_off]" and r = 1000 and s = 3 and k = 2
         and cfg' = "\<lparr>conf_name = ''a'', speed_join = 1, speed_steps = Some 3, reverse_join = None\<rparr>"
         and h' = "\<lparr>analog = (\<lambda>_. 5), digital = (\<lambda>_. True), available = True, written = []\<rparr>"
         and es' = "[Turn_off, Hub_analog 1 43690]" and v = 0]
  by (simp add: run_def apply_event_def get_analog_def async_turn_off_def set_analog_def
      async_set_direction_def set_digital_def)

theorem percentage_no_cache_counterexample:
  "percentage
     \<lparr>conf_name = ''a'', speed_join = 1, speed_steps = Some 3, reverse_join = None\<rparr>
     (run \<lparr>conf_name = ''a'', speed_join = 1, speed_steps = Some 3, reverse_join = None\<rparr>
        \<lparr>analog = (\<lambda>_. 5), digital = (\<lambda>_. True), available = True, written = []\<rparr>
        [Turn_off, Hub_analog 1 43690]) = Inr 66 \<and>
   spec_decode (Some 3)
     (get_analog
       (run \<lparr>conf_name = ''a'', speed_join = 1, speed_steps = Some 3, reverse_join = None\<rparr>
          \<lparr>analog = (\<lambda>_. 5), digital = (\<lambda>_. True), available = True, written = []\<rparr>
          [Turn_off, Hub_analog 1 43690]) 1) = 67"
  by (simp add: run_def apply_event_def get_analog_def async_turn_off_def set_analog_def
      percentage_def decode_3_43690 spec_decode_3_43690)

section \<open>The encoder\<close>

lemma async_set_percentage_nonzero:
  "p \<noteq> 0 \<Longrightarrow> analog_value (speed_steps cfg) p = Inr v \<Longrightarrow>
     async_set_percentage cfg h p = Inr (set_analog h (speed_join cfg) v)"
  by (simp add: async_set_percentage_def)

text \<open>
  C2, as the code has it.  For a percentage \<open>p\<close> in \<open>[1, 100]\<close> the single hub call of
  \<open>async_set_percentage\<close> is an analog write to the speed join.  In stepless mode the
  value is \<open>int((p / 100) * 65535)\<close>, which is \<open>\<lfloor>p * 65535 / 100\<rfloor>\<close>.  In stepped mode
  with up to \<open>2^32\<close> steps the target step \<open>k\<close> is \<open>round(p * steps / 100)\<close> clamped to
  \<open>[1, steps]\<close>, a tie going to the even integer, and the value is
  \<open>int(k * 65535 / steps)\<close>, which is \<open>\<lfloor>k * 65535 / steps\<rfloor>\<close>: truncated, not rounded.  Left
  out are the ties \<open>p * steps / 100 = t + 1/2\<close> in which the float product
  \<open>(p / 100) * steps\<close> is not that number (45 steps and 70 percent give step 31, where
  31.5 rounds to 32); the percentages 25, 50 and 75 are never among them.
\<close>

theorem encoder_truncates:
  "1 \<le> p \<Longrightarrow> p \<le> 100 \<Longrightarrow>
     (speed_steps cfg = None \<longrightarrow>
        async_set_percentage cfg h p =
          Inr (set_analog h (speed_join cfg) ((p * 65535) div 100))) \<and>
     (speed_steps cfg = Some s \<and> 1 \<le> s \<and> s \<le> 2 ^ 32 \<and>
      k = clamp (py_round (of_int p / 100 * of_int s)) 1 s \<and>
      (p * s mod 100 = 50 \<longrightarrow> p = 25 \<or> p = 50 \<or> p = 75 \<or>
         fl (fl (of_int p / 100) * of_int s) = of_int p / 100 * of_int s) \<longrightarrow>
        target_step s p = Inr k \<and>
        async_set_percentage cfg h p =
          Inr (set_analog h (speed_join cfg) ((k * 65535) div s)))"
proof (intro conjI impI)
  assume p: "1 \<le> p" "p \<le> 100"
  then have p0: "p \<noteq> 0" by simp
  {
    assume "speed_steps cfg = None"
    then show "async_set_percentage cfg h p =
          Inr (set_analog h (speed_join cfg) ((p * 65535) div 100))"
      using p p0 by (simp add: async_set_percentage_nonzero analog_value_stepless_exact)
  }
  assume a: "speed_steps cfg = Some s \<and> 1 \<le> s \<and> s \<le> 2 ^ 32 \<and>
      k = clamp (py_round (of_int p / 100 * of_int s)) 1 s \<and>
      (p * s mod 100 = 50 \<longrightarrow> p = 25 \<or> p = 50 \<or> p = 75 \<or>
         fl (fl (of_int p / 100) * of_int s) = of_int p / 100 * of_int s)"
  then have s: "1 \<le> s" "s \<le> 2 ^ 32" and c: "speed_steps cfg = Some s" by simp_all
  from a have k: "k = clamp (py_round (of_int p / 100 * of_int s)) 1 s" by blast
  from a have t: "p * s mod 100 = 50 \<longrightarrow> p = 25 \<or> p = 50 \<or> p = 75 \<or>
         fl (fl (of_int p / 100) * of_int s) = of_int p / 100 * of_int s" by blast
  show ts: "target_step s p = Inr k" unfolding k using p s t by (rule target_step_exact)
  have kb: "0 \<le> k * 65535" "k * 65535 \<le> 65535 * s" using s(1) by (simp_all add: k clamp_def)
  from int_truediv_floor[OF kb s]
  obtain f where f: "int_truediv (k * 65535) s = Inr f" "py_int f = (k * 65535) div s"
    by blast
  have "analog_value (Some s) p = Inr ((k * 65535) div s)"
    using ts f by (simp add: analog_value_def)
  then show "async_set_percentage cfg h p =
          Inr (set_analog h (speed_join cfg) ((k * 65535) div s))"
    using p0 c by (simp add: async_set_percentage_nonzero)
qed

theorem encoder_truncates_witness:
  "async_set_percentage
     \<lparr>conf_name = ''fan'', speed_join = 1, speed_steps = None, reverse_join = None\<rparr>
     \<lparr>analog = (\<lambda>_. 0), digital = (\<lambda>_. False), available = True, written = []\<rparr> 2 =
   Inr (set_analog
     \<lparr>analog = (\<lambda>_. 0), digital = (\<lambda>_. False), available = True, written = []\<rparr> 1 1310) \<and>
   async_set_percentage
     \<lparr>conf_name = ''fan'', speed_join = 1, speed_steps = Some 4, reverse_join = None\<rparr>
     \<lparr>analog = (\<lambda>_. 0), digital = (\<lambda>_. False), available = True, written = []\<rparr> 25 =
   Inr (set_analog
     \<lparr>analog = (\<lambda>_. 0), digital = (\<lambda>_. False), available = True, written = []\<rparr> 1 16383) \<and>
   target_step 3 50 = Inr 2 \<and>
   async_set_percentage
     \<lparr>conf_name = ''fan'', speed_join = 1, speed_steps = Some 3, reverse_join = None\<rparr>
     \<lparr>analog = (\<lambda>_. 0), digital = (\<lambda>_. False), available = True, written = []\<rparr> 50 =
   Inr (set_analog
     \<lparr>analog = (\<lambda>_. 0), digital = (\<lambda>_. False), available = True, written = []\<rparr> 1 43690)"
proof -
  have "py_round (3 / 2) = 2" by (simp add: py_round_cases)
  then show ?thesis
    using
      encoder_truncates
        [of 2 "\<lparr>conf_name = ''fan'', speed_join = 1, speed_steps = None, reverse_join = None\<rparr>"
            "\<lparr>analog = (\<lambda>_. 0), digital = (\<lambda>_. False), available = True, written = []\<rparr>" 4 1]
      encoder_truncates
        [of 25 "\<lparr>conf_name = ''fan'', speed_join = 1, speed_steps = Some 4, reverse_join = None\<rparr>"
            "\<lparr>analog = (\<lambda>_. 0), digital = (\<lambda>_. False), available = True, written = []\<rparr>" 4 1]
      encoder_truncates
        [of 50 "\<lparr>conf_name = ''fan'', speed_join = 1, speed_steps = Some 3, reverse_join = None\<rparr>"
            "\<lparr>analog = (\<lambda>_. 0), digital = (\<lambda>_. False), available = True, written = []\<rparr>" 3 2]
    by (simp add: clamp_def)
qed

theorem encoder_rounds_counterexample:
  "async_set_percentage
     \<lparr>conf_name = ''fan'', speed_join = 1, speed_steps = Some 4, reverse_join = None\<rparr>
     \<lparr>analog = (\<lambda>_. 0), digital = (\<lambda>_. False), available = True, written = []\<rparr> 25 =
   Inr (set_analog
     \<lparr>analog = (\<lambda>_. 0), digital = (\<lambda>_. False), available = True, written = []\<rparr> 1 16383) \<and>
   spec_encode (Some 4) 25 = 16384 \<and>
   async_set_percentage
     \<lparr>conf_name = ''fan'', speed_join = 1, speed_steps = None, reverse_join = None\<rparr>
     \<lparr>analog = (\<lambda>_. 0), digital = (\<lambda>_. False), available = True, written = []\<rparr> 2 =
   Inr (set_analog
     \<lparr>analog = (\<lambda>_. 0), digital = (\<lambda>_. False), available = True, written = []\<rparr> 1 1310) \<and>
   spec_encode None 2 = 1311"
  by (simp add: async_set_percentage_nonzero analog_value_4_25 analog_value_stepless_exact
      spec_encode_4_25 spec_encode_None_2)

section \<open>The default of turn-on\<close>

lemma async_turn_on_default:
  "turn_on_percentage cfg None = Inr p \<Longrightarrow>
     async_turn_on cfg h None = async_set_percentage cfg h p"
  by (simp add: async_turn_on_def)

lemma step_to_percentage_101_turn_off:
  "async_turn_on
     \<lparr>conf_name = ''fan'', speed_join = 1, speed_steps = Some 101, reverse_join = None\<rparr> h None =
   Inr (async_turn_off
     \<lparr>conf_name = ''fan'', speed_join = 1, speed_steps = Some 101, reverse_join = None\<rparr> h)"
  by (simp add: async_turn_on_def turn_on_percentage_def step_to_percentage_101_1
      async_set_percentage_def)

text \<open>
  C6, as the code has it.  Without an explicit percentage \<open>async_turn_on\<close> passes to
  \<open>async_set_percentage\<close> the percentage 1 in stepless mode, which writes the raw value
  655, and \<open>int((1 / steps) * 100)\<close> in stepped mode: truncated, not rounded.  For 1 to 100
  steps this is \<open>\<lfloor>100 / steps\<rfloor>\<close> (25 for 4 steps, which writes 16383), it is at least 1, and
  the single hub call is an analog write of a value in \<open>[1, 65535]\<close> to the speed join.
\<close>

theorem turn_on_default:
  "(speed_steps cfg = None \<longrightarrow>
      turn_on_percentage cfg None = Inr 1 \<and>
      async_turn_on cfg h None = async_set_percentage cfg h 1 \<and>
      async_turn_on cfg h None = Inr (set_analog h (speed_join cfg) 655)) \<and>
   (speed_steps cfg = Some s \<and> 1 \<le> s \<and> s \<le> 100 \<longrightarrow>
      turn_on_percentage cfg None = Inr (100 div s) \<and>
      async_turn_on cfg h None = async_set_percentage cfg h (100 div s) \<and>
      1 \<le> 100 div s \<and>
      (\<exists>v. 1 \<le> v \<and> v \<le> 65535 \<and>
           async_turn_on cfg h None = Inr (set_analog h (speed_join cfg) v))) \<and>
   (speed_steps cfg = Some 4 \<longrightarrow>
      turn_on_percentage cfg None = Inr 25 \<and>
      async_turn_on cfg h None = async_set_percentage cfg h 25 \<and>
      async_turn_on cfg h None = Inr (set_analog h (speed_join cfg) 16383))"
proof (intro conjI impI)
  {
    assume n: "speed_steps cfg = None"
    then show t: "turn_on_percentage cfg None = Inr 1" by (simp add: turn_on_percentage_def)
    then show "async_turn_on cfg h None = async_set_percentage cfg h 1"
      by (rule async_turn_on_default)
    have "analog_value (speed_steps cfg) 1 = Inr ((1 * 65535) div 100)"
      unfolding n by (rule analog_value_stepless_exact) simp_all
    then show "async_turn_on cfg h None = Inr (set_analog h (speed_join cfg) 655)"
      using t by (simp add: async_turn_on_default async_set_percentage_nonzero)
  }
  {
    assume c: "speed_steps cfg = Some 4"
    then show t: "turn_on_percentage cfg None = Inr 25"
      by (simp add: turn_on_percentage_def step_to_percentage_first)
    then show e: "async_turn_on cfg h None = async_set_percentage cfg h 25"
      by (rule async_turn_on_default)
    show "async_turn_on cfg h None = Inr (set_analog h (speed_join cfg) 16383)"
      unfolding e using c by (simp add: async_set_percentage_nonzero analog_value_4_25)
  }
  assume a: "speed_steps cfg = Some s \<and> 1 \<le> s \<and> s \<le> 100"
  then have s: "1 \<le> s" "s \<le> 100" and c: "speed_steps cfg = Some s" by simp_all
  show t: "turn_on_percentage cfg None = Inr (100 div s)"
    using c s by (simp add: turn_on_percentage_def step_to_percentage_first)
  then show "async_turn_on cfg h None = async_set_percentage cfg h (100 div s)"
    by (rule async_turn_on_default)
  have "0 < 100 div s" using s by (simp add: pos_imp_zdiv_pos_iff)
  then show p1: "1 \<le> 100 div s" by simp
  have "100 div s \<le> 100 div 1" using s by (intro zdiv_mono2) simp_all
  then have p100: "100 div s \<le> 100" by simp
  have s32: "s \<le> 2 ^ 32" using s(2) by simp
  from analog_value_stepped_exact[OF p1 p100 s(1) s32] obtain k
    where "analog_value (Some s) (100 div s) = Inr ((k * 65535) div s)"
      "1 \<le> (k * 65535) div s" "(k * 65535) div s \<le> 65535" by blast
  moreover have "100 div s \<noteq> 0" using p1 by simp
  ultimately show "\<exists>v. 1 \<le> v \<and> v \<le> 65535 \<and>
           async_turn_on cfg h None = Inr (set_analog h (speed_join cfg) v)"
    using t c by (auto simp: async_turn_on_default async_set_percentage_nonzero)
qed

theorem turn_on_default_witness:
  "async_turn_on
     \<lparr>conf_name = ''fan'', speed_join = 1, speed_steps = None, reverse_join = None\<rparr>
     \<lparr>analog = (\<lambda>_. 0), digital = (\<lambda>_. False), available = True, written = []\<rparr> None =
   Inr (set_analog
     \<lparr>analog = (\<lambda>_. 0), digital = (\<lambda>_. False), available = True, written = []\<rparr> 1 655) \<and>
   async_turn_on
     \<lparr>conf_name = ''fan'', speed_join = 1, speed_steps = Some 4, reverse_join = None\<rparr>
     \<lparr>analog = (\<lambda>_. 0), digital = (\<lambda>_. False), available = True, written = []\<rparr> None =
   Inr (set_analog
     \<lparr>analog = (\<lambda>_. 0), digital = (\<lambda>_. False), available = True, written = []\<rparr> 1 16383) \<and>
   turn_on_percentage
     \<lparr>conf_name = ''fan'', speed_join = 1, speed_steps = Some 4, reverse_join = None\<rparr> None = Inr 25 \<and>
   async_turn_on
     \<lparr>conf_name = ''fan'', speed_join = 1, speed_steps = Some 3, reverse_join = None\<rparr>
     \<lparr>analog = (\<lambda>_. 0), digital = (\<lambda>_. False), available = True, written = []\<rparr> None =
   async_set_percentage
     \<lparr>conf_name = ''fan'', speed_join = 1, speed_steps = Some 3, reverse_join = None\<rparr>
     \<lparr>analog = (\<lambda>_. 0), digital = (\<lambda>_. False), available = True, written = []\<rparr> 33"
  using
    turn_on_default
      [of "\<lparr>conf_name = ''fan'', speed_join = 1, speed_steps = None, reverse_join = None\<rparr>"
          "\<lparr>analog = (\<lambda>_. 0), digital = (\<lambda>_. False), available = True, written = []\<rparr>" 4]
    turn_on_default
      [of "\<lparr>conf_name = ''fan'', speed_join = 1, speed_steps = Some 4, reverse_join = None\<rparr>"
          "\<lparr>analog = (\<lambda>_. 0), digital = (\<lambda>_. False), available = True, written = []\<rparr>" 4]
    turn_on_default
      [of "\<lparr>conf_name = ''fan'', speed_join = 1, speed_steps = Some 3, reverse_join = None\<rparr>"
          "\<lparr>analog = (\<lambda>_. 0), digital = (\<lambda>_. False), available = True, written = []\<rparr>" 3]
  by auto

theorem turn_on_default_rounds_counterexample:
  "turn_on_percentage
     \<lparr>conf_name = ''fan'', speed_join = 1, speed_steps = Some 6, reverse_join = None\<rparr> None = Inr 16 \<and>
   async_turn_on
     \<lparr>conf_name = ''fan'', speed_join = 1, speed_steps = Some 6, reverse_join = None\<rparr>
     \<lparr>analog = (\<lambda>_. 0), digital = (\<lambda>_. False), available = True, written = []\<rparr> None =
   async_set_percentage
     \<lparr>conf_name = ''fan'', speed_join = 1, speed_steps = Some 6, reverse_join = None\<rparr>
     \<lparr>analog = (\<lambda>_. 0), digital = (\<lambda>_. False), available = True, written = []\<rparr> 16 \<and>
   spec_turn_on_default (Some 6) = 17"
  by (simp add: async_turn_on_def turn_on_percentage_def step_to_percentage_6_1 spec_turn_on_default_6)

section \<open>Round trip of a step\<close>

text \<open>
  Where the round trip ends.  With 65536 steps the rounded raw value of step 32768
  decodes to step 32769, which has the same percentage; with 65537 steps the rounded raw
  value of step 16384 decodes to step 16385 and to 25 percent, where step 16384 is 24
  percent.  With 32771 steps the raw value the encoder writes for step 4682 decodes to
  step 4681, and with 32780 steps the one for step 3934 decodes to 11 percent, where step
  3934 is 12 percent.
\<close>

lemma round_trip_65536_32768:
  "current_step 65536 (py_round (of_int (32768 * 65535) / of_int 65536)) = Inr 32769 \<and>
   decode (Some 65536) (py_round (of_int (32768 * 65535) / of_int 65536)) = Inr 50"
proof -
  have r: "py_round (of_int (32768 * 65535) / of_int 65536) = 32768"
    by (simp add: py_round_cases)
  have "current_step 65536 32768 = Inr (min 65536 (max 1 ((2 * 32768 * 65536 + 65535) div 131070)))"
    by (rule current_step_exact) simp_all
  then have cs: "current_step 65536 32768 = Inr 32769" by simp
  have "step_to_percentage 65536 32769 = Inr ((100 * 32769) div 65536)"
    by (rule step_to_percentage_exact) simp_all
  then have "step_to_percentage 65536 32769 = Inr 50" by simp
  then show ?thesis unfolding r using cs by (simp add: decode_stepped)
qed

lemma round_trip_fails_65537:
  "decode (Some 65537) (py_round (of_int (16384 * 65535) / of_int 65537)) = Inr 25 \<and>
   (100 * 16384) div 65537 = (24::int)"
proof -
  have r: "py_round (of_int (16384 * 65535) / of_int 65537) = 16384"
    by (rule py_round_near) simp
  have "current_step 65537 16384 = Inr (min 65537 (max 1 ((2 * 16384 * 65537 + 65535) div 131070)))"
    by (rule current_step_exact) simp_all
  then have cs: "current_step 65537 16384 = Inr 16385" by simp
  have "step_to_percentage 65537 16385 = Inr ((100 * 16385) div 65537)"
    by (rule step_to_percentage_exact) simp_all
  then have "step_to_percentage 65537 16385 = Inr 25" by simp
  then show ?thesis unfolding r using cs by (simp add: decode_stepped)
qed

lemma floor_trip_fails_32771:
  "current_step 32771 ((4682 * 65535) div 32771) = Inr 4681"
proof -
  have "current_step 32771 9362 = Inr (min 32771 (max 1 ((2 * 9362 * 32771 + 65535) div 131070)))"
    by (rule current_step_exact) simp_all
  then show ?thesis by simp
qed

lemma floor_trip_fails_32780:
  "decode (Some 32780) ((3934 * 65535) div 32780) = Inr 11 \<and>
   (100 * 3934) div 32780 = (12::int)"
proof -
  have "current_step 32780 7864 = Inr (min 32780 (max 1 ((2 * 7864 * 32780 + 65535) div 131070)))"
    by (rule current_step_exact) simp_all
  then have cs: "current_step 32780 7864 = Inr 3933" by simp
  have "step_to_percentage 32780 3933 = Inr ((100 * 3933) div 32780)"
    by (rule step_to_percentage_exact) simp_all
  then have "step_to_percentage 32780 3933 = Inr 11" by simp
  then show ?thesis using cs by (simp add: decode_stepped)
qed

text \<open>
  C1, as the code has it.  For a step \<open>k\<close> in \<open>[1, steps]\<close> the rounded raw value
  \<open>round(k * 65535 / steps)\<close> decodes to the percentage \<open>int((k / steps) * 100)\<close>, which is
  \<open>\<lfloor>100 k / steps\<rfloor>\<close> (truncated, not rounded), for up to 65536 steps, and to step \<open>k\<close>
  itself for up to 65535 steps.  The raw value the encoder writes for step \<open>k\<close>,
  \<open>\<lfloor>k * 65535 / steps\<rfloor>\<close>, decodes to step \<open>k\<close> and to the same percentage for up to 32770
  steps, so setting a percentage whose target step is \<open>k\<close> and reading the percentage back
  gives \<open>\<lfloor>100 k / steps\<rfloor>\<close>.  The quotients \<open>k / steps\<close> equal to 29/100, 57/100 and 58/100
  are left out, as for the decoder.
\<close>

theorem step_round_trip:
  "1 \<le> k \<Longrightarrow> k \<le> s \<Longrightarrow> \<not> (s dvd 100 * k \<and> (100 * k) div s \<in> {29, 57, 58}) \<Longrightarrow>
     (s \<le> 65536 \<longrightarrow>
        decode (Some s) (py_round (of_int (k * 65535) / of_int s)) = Inr ((100 * k) div s)) \<and>
     (s \<le> 65535 \<longrightarrow>
        current_step s (py_round (of_int (k * 65535) / of_int s)) = Inr k) \<and>
     (s \<le> 32770 \<longrightarrow>
        current_step s ((k * 65535) div s) = Inr k \<and>
        decode (Some s) ((k * 65535) div s) = Inr ((100 * k) div s) \<and>
        (\<forall>p. 1 \<le> p \<and> p \<le> 100 \<and> target_step s p = Inr k \<longrightarrow>
             bind (analog_value (Some s) p) (decode (Some s)) = Inr ((100 * k) div s)))"
proof -
  assume k: "1 \<le> k" "k \<le> s"
    and n: "\<not> (s dvd 100 * k \<and> (100 * k) div s \<in> {29, 57, 58})"
  have s1: "1 \<le> s" using k by linarith
  have pc: "step_to_percentage s k = Inr ((100 * k) div s)" if "s \<le> 2 ^ 32"
    using k that n by (rule step_to_percentage_exact)
  have rec: "current_step s (py_round (of_int (k * 65535) / of_int s)) = Inr k \<and>
      decode (Some s) (py_round (of_int (k * 65535) / of_int s)) = Inr ((100 * k) div s)"
    if s: "s \<le> 65536" and t: "s = 65536 \<longrightarrow> k \<noteq> 32768"
  proof -
    have s32: "s \<le> 2 ^ 32" using s by simp
    note g = raw_of_step_round[OF k s t]
    have cg: "current_step s (py_round (of_int (k * 65535) / of_int s)) = Inr k"
      using k s32 g by (rule current_step_recovers)
    then show ?thesis using g(1) pc[OF s32] by (simp add: decode_stepped)
  qed
  have a: "decode (Some s) (py_round (of_int (k * 65535) / of_int s)) = Inr ((100 * k) div s)"
    if s: "s \<le> 65536"
  proof (cases "s = 65536 \<and> k = 32768")
    case True
    then show ?thesis using round_trip_65536_32768 by simp
  next
    case False
    then have "s = 65536 \<longrightarrow> k \<noteq> 32768" by simp
    with rec s show ?thesis by simp
  qed
  have b: "current_step s (py_round (of_int (k * 65535) / of_int s)) = Inr k" if "s \<le> 65535"
    using that rec by simp
  have c: "current_step s ((k * 65535) div s) = Inr k \<and>
        decode (Some s) ((k * 65535) div s) = Inr ((100 * k) div s) \<and>
        (\<forall>p. 1 \<le> p \<and> p \<le> 100 \<and> target_step s p = Inr k \<longrightarrow>
             bind (analog_value (Some s) p) (decode (Some s)) = Inr ((100 * k) div s))"
    if s: "s \<le> 32770"
  proof -
    have s32: "s \<le> 2 ^ 32" using s by simp
    note f = raw_of_step_floor[OF k s]
    have cf: "current_step s ((k * 65535) div s) = Inr k"
      using k s32 f by (rule current_step_recovers)
    have df: "decode (Some s) ((k * 65535) div s) = Inr ((100 * k) div s)"
      using f(1) cf pc[OF s32] by (simp add: decode_stepped)
    have "bind (analog_value (Some s) p) (decode (Some s)) = Inr ((100 * k) div s)"
      if p: "1 \<le> p \<and> p \<le> 100 \<and> target_step s p = Inr k" for p
    proof -
      from p have "1 \<le> p" "p \<le> 100" by simp_all
      from analog_value_stepped_exact[OF this s1 s32] obtain k'
        where "target_step s p = Inr k'" "analog_value (Some s) p = Inr ((k' * 65535) div s)"
        by blast
      with p have "analog_value (Some s) p = Inr ((k * 65535) div s)" by simp
      then show ?thesis using df by simp
    qed
    with cf df show ?thesis by blast
  qed
  from a b c show ?thesis by blast
qed

theorem step_round_trip_witness:
  "decode (Some 3) (py_round (of_int (2 * 65535) / of_int 3)) = Inr 66 \<and>
   current_step 3 (py_round (of_int (2 * 65535) / of_int 3)) = Inr 2 \<and>
   current_step 3 ((2 * 65535) div 3) = Inr 2 \<and>
   decode (Some 3) ((2 * 65535) div 3) = Inr 66 \<and>
   bind (analog_value (Some 3) 50) (decode (Some 3)) = Inr 66 \<and>
   decode (Some 4) (py_round (of_int (4 * 65535) / of_int 4)) = Inr 100"
  using step_round_trip[of 2 3] step_round_trip[of 4 4] target_step_3_50 by simp

theorem round_trip_counterexample:
  "py_round (of_int (2 * 65535) / of_int 3) = 43690 \<and> (2 * 65535) div 3 = (43690::int) \<and>
   decode (Some 3) 43690 = Inr 66 \<and> py_round (2 / 3 * 100) = 67"
proof -
  have "py_round (200 / 3) = 67" by (rule py_round_near) simp
  then show ?thesis by (simp add: decode_3_43690)
qed

section \<open>The encoder and zero\<close>

text \<open>
  A power of two is a double, so a float operation on operands below \<open>2^1023\<close> whose
  exact result is at most \<open>2^1023\<close> does not overflow.  Beyond \<open>2^32\<close> steps the target step
  is at least \<open>steps / 512 - 1 / 2\<close>, which is enough for \<open>step * 65535 / steps\<close> to be at
  least 1.
\<close>

lemma fl_two_powi:
  assumes "- 1022 \<le> e"
  shows "fl (2 powi e) = 2 powi e"
proof -
  have "(2::rat) powi e / 2 powi (e - 52) = 2 powi (e - (e - 52))"
    by (rule two_powi_diff[symmetric])
  also have "e - (e - 52) = 52" by simp
  finally have q: "(2::rat) powi e / 2 powi (e - 52) = of_int (2 ^ 52)" by simp
  have "(2::rat) powi e \<le> 2 powi e" by simp
  moreover have "(2::rat) powi e < 2 powi (e + 1)" by (rule two_powi_strict_mono) simp
  moreover note assms
  moreover have "\<bar>(2::rat) powi e / 2 powi (e - 52) - of_int (2 ^ 52)\<bar> < 1 / 2"
    unfolding q by simp
  ultimately have "fl (2 powi e) = of_int (2 ^ 52) * 2 powi (e - 52)" by (rule fl_eqI)
  also have "\<dots> = 2 powi 52 * 2 powi (e - 52)" by simp
  also have "\<dots> = 2 powi e" by (rule two_powi_split)
  finally show ?thesis .
qed

lemma fl_below_overflow:
  assumes "0 \<le> x" "x \<le> 2 ^ 1023"
  shows "finite_or_raise (fl x) = Inr (fl x)"
proof -
  have p: "(2::rat) powi 1023 = 2 ^ 1023" by (rule power_int_numeral)
  have "fl x \<le> fl (2 powi 1023)" using assms unfolding p by (rule fl_mono)
  also have "\<dots> = 2 powi 1023" by (rule fl_two_powi) simp
  finally have "fl x \<le> 2 ^ 1023" unfolding p .
  moreover have "(2::rat) ^ 1023 < 2 ^ 1024" by (rule power_strict_increasing) simp_all
  moreover have "0 \<le> fl x" using assms(1) by (rule fl_nonneg)
  ultimately have "\<not> 2 ^ 1024 \<le> \<bar>fl x\<bar>" by linarith
  then show ?thesis by (simp only: finite_or_raise_def if_False)
qed

lemma finite_or_raise_cases:
  "finite_or_raise y = Inl OverflowError \<or> finite_or_raise y = Inr y"
  by (simp add: finite_or_raise_def)

lemma analog_value_stepped_large:
  assumes p: "1 \<le> p" "p \<le> 100" and s: "2 ^ 32 < s"
  shows "(\<exists>v. 1 \<le> v \<and> v \<le> 65535 \<and> analog_value (Some s) p = Inr v) \<or>
         (analog_value (Some s) p = Inl OverflowError \<and> 2 ^ 1023 \<le> s)"
proof -
  define x :: rat where "x = of_int p / of_int 100"
  define f where "f = fl x"
  define S where "S = fl (of_int s)"
  define y where "y = fl (f * S)"
  define m where "m = py_round y"
  define k where "k = max 1 (min s m)"
  have s0: "0 < s" using s by (simp add: order.strict_trans[rotated])
  have sr32: "(2::rat) ^ 32 \<le> of_int s"
  proof -
    have "2 ^ 32 \<le> s" using s by simp
    then have "(of_int (2 ^ 32) :: rat) \<le> of_int s" by (simp only: of_int_le_iff)
    then show ?thesis by simp
  qed
  have sr0: "(0::rat) < of_int s" using s0 by simp
  have pr: "(1::rat) \<le> of_int p" "(of_int p :: rat) \<le> 100" using p by simp_all
  have x_lo: "1 / 100 \<le> x" and x1: "x \<le> 1" unfolding x_def using pr by simp_all
  have x0: "0 \<le> x" using x_lo by simp
  have f0: "0 \<le> f" unfolding f_def using x0 by (rule fl_nonneg)
  have f1: "f \<le> 1" unfolding f_def using fl_le_int[of x 1] x0 x1 by simp
  have f_lo: "1 / 128 \<le> f"
  proof -
    have "(2::rat) powi (- 7) = 1 / 128" by (simp add: power_int_minus_divide)
    moreover have "(2::rat) powi (- 7) \<le> fl x"
      by (rule fl_ge_binade) (use x_lo in \<open>simp_all add: power_int_minus_divide\<close>)
    ultimately show ?thesis by (simp add: f_def)
  qed
  have td: "int_truediv p 100 = Inr f"
  proof -
    have "(100::int) \<noteq> 0" by simp
    moreover note x0[unfolded x_def]
    moreover have "x \<le> 2 ^ 53" using x1 unfolding pow2_rat by linarith
    then have "of_int p / (of_int 100 :: rat) \<le> 2 ^ 53" unfolding x_def .
    ultimately show ?thesis unfolding f_def x_def by (rule int_truediv_small)
  qed
  have S_lo: "of_int s - of_int s / 2 ^ 53 \<le> S"
    unfolding S_def using sr32 by (intro fl_rel_err') (simp add: pow2_rat)
  have S0: "0 \<le> S" unfolding S_def using sr0 by (intro fl_nonneg) simp
  have small: "finite_or_raise S = Inr S \<and> finite_or_raise y = Inr y" if "s < 2 ^ 1023"
  proof -
    have "s \<le> 2 ^ 1023" using that by simp
    then have b: "(of_int s :: rat) \<le> 2 ^ 1023" by (rule of_int_le_pow)
    have sf: "finite_or_raise S = Inr S" unfolding S_def using sr0 b
      by (intro fl_below_overflow) simp_all
    have "fl (of_int s) \<le> fl (2 powi 1023)" using sr0 b by (intro fl_mono) simp_all
    also have "\<dots> = 2 powi 1023" by (rule fl_two_powi) simp
    also have "\<dots> = 2 ^ 1023" by (rule power_int_numeral)
    finally have S_hi: "S \<le> 2 ^ 1023" by (simp only: S_def)
    have "f * S \<le> 1 * S" using f1 S0 by (intro mult_right_mono)
    then have "f * S \<le> 2 ^ 1023" using S_hi by simp
    moreover have "0 \<le> f * S" using f0 S0 by simp
    ultimately have "finite_or_raise y = Inr y" unfolding y_def by (intro fl_below_overflow)
    with sf show ?thesis by simp
  qed
  have big: "2 ^ 1023 \<le> s" if "finite_or_raise S \<noteq> Inr S \<or> finite_or_raise y \<noteq> Inr y"
    using that small by (cases "s < 2 ^ 1023") auto
  define W where "W = f * S"
  have W0: "0 \<le> W" unfolding W_def using f0 S0 by simp
  have S_half: "of_int s / 2 \<le> S" using S_lo sr0 unfolding pow2_rat by linarith
  have "1 / 128 * (of_int s / 2) \<le> f * S"
    using f_lo S_half sr0 f0 by (intro mult_mono) simp_all
  then have W_lo: "of_int s / 256 \<le> W" by (simp add: W_def)
  have w64: "1 / 2 ^ 64 \<le> W" using W_lo sr32 unfolding pow2_rat by linarith
  have y_lo: "of_int s / 512 \<le> y"
  proof -
    have "W - W / 2 ^ 53 \<le> fl W" using w64 by (rule fl_rel_err')
    then have "W - W / 2 ^ 53 \<le> y" by (simp only: y_def W_def)
    with W_lo W0 show ?thesis unfolding pow2_rat by linarith
  qed
  have "\<bar>y - of_int m\<bar> \<le> 1 / 2" unfolding m_def by (rule py_round_err)
  then have "of_int s / 512 - 1 / 2 \<le> (of_int m :: rat)" using y_lo by linarith
  then have "(of_int s :: rat) \<le> of_int m * 65535" using sr32 unfolding pow2_rat by linarith
  then have "(of_int s :: rat) \<le> of_int (m * 65535)" by simp
  then have ms: "s \<le> m * 65535" by (simp only: of_int_le_iff)
  have k: "1 \<le> k" "k \<le> s" using s0 by (simp_all add: k_def)
  have ks: "s \<le> k * 65535" using ms k(1) s0 by (simp add: k_def max_def min_def)
  have hi: "k * 65535 \<le> 65535 * s" using k(2) by simp
  define z :: rat where "z = of_int (k * 65535) / of_int s"
  have z1: "1 \<le> z"
  proof -
    have "(of_int s :: rat) \<le> of_int (k * 65535)" using ks by (simp only: of_int_le_iff)
    then show ?thesis unfolding z_def using sr0 by (simp add: le_divide_eq)
  qed
  have z_hi: "z \<le> 65535"
  proof -
    have "(of_int (k * 65535) :: rat) \<le> of_int (65535 * s)" using hi by (simp only: of_int_le_iff)
    then show ?thesis unfolding z_def using sr0 by (simp add: divide_le_eq)
  qed
  have z0: "0 \<le> z" using z1 by simp
  have fz1: "1 \<le> fl z" using fl_ge_int[of 1 z] z1 by simp
  have fz_hi: "fl z \<le> 65535" using fl_le_int[of z 65535] z0 z_hi by simp
  have tz: "int_truediv (k * 65535) s = Inr (fl z)"
  proof -
    have "s \<noteq> 0" using s0 by simp
    moreover note z0[unfolded z_def]
    moreover have "z \<le> 2 ^ 53" using z_hi unfolding pow2_rat by linarith
    then have "of_int (k * 65535) / (of_int s :: rat) \<le> 2 ^ 53" unfolding z_def .
    ultimately show ?thesis unfolding z_def by (rule int_truediv_small)
  qed
  have v: "1 \<le> py_int (fl z)" "py_int (fl z) \<le> 65535"
    using fz1 fz_hi by (simp_all add: py_int_def le_floor_iff floor_le_iff)
  show ?thesis
  proof (cases "finite_or_raise S = Inr S \<and> finite_or_raise y = Inr y")
    case True
    then have "float_mul_int f s = Inr y"
      by (simp add: float_mul_int_def int_to_float_def float_mul_def S_def[symmetric]
          y_def[symmetric])
    then have "target_step s p = Inr k" using td by (simp add: target_step_def k_def m_def)
    then have "analog_value (Some s) p = Inr (py_int (fl z))"
      using tz by (simp add: analog_value_def)
    with v show ?thesis by blast
  next
    case False
    then have b: "2 ^ 1023 \<le> s" using big by blast
    have "float_mul_int f s = Inl OverflowError"
    proof (cases "finite_or_raise S = Inr S")
      case True
      with False have "finite_or_raise y \<noteq> Inr y" by simp
      then have "finite_or_raise y = Inl OverflowError" using finite_or_raise_cases[of y] by blast
      with True show ?thesis
        by (simp add: float_mul_int_def int_to_float_def float_mul_def S_def[symmetric]
            y_def[symmetric])
    next
      case False
      then have "finite_or_raise S = Inl OverflowError" using finite_or_raise_cases[of S] by blast
      then show ?thesis by (simp add: float_mul_int_def int_to_float_def S_def[symmetric])
    qed
    then have "analog_value (Some s) p = Inl OverflowError"
      using td by (simp add: analog_value_def target_step_def)
    with b show ?thesis by blast
  qed
qed

lemma analog_value_stepped_nonzero:
  assumes p: "1 \<le> p" "p \<le> 100" and s: "1 \<le> s"
  shows "(\<exists>v. 1 \<le> v \<and> v \<le> 65535 \<and> analog_value (Some s) p = Inr v) \<or>
         (analog_value (Some s) p = Inl OverflowError \<and> 2 ^ 1023 \<le> s)"
proof (cases "s \<le> 2 ^ 32")
  case True
  from analog_value_stepped_exact[OF p s True] obtain k
    where "analog_value (Some s) p = Inr ((k * 65535) div s)"
      "1 \<le> (k * 65535) div s" "(k * 65535) div s \<le> 65535" by blast
  then show ?thesis by blast
next
  case False
  then have "2 ^ 32 < s" by simp
  with p show ?thesis by (rule analog_value_stepped_large)
qed

lemma analog_value_no_steps:
  assumes p: "1 \<le> p" "p \<le> 100"
  shows "analog_value (Some 0) p = Inl ZeroDivisionError"
proof -
  have "0 \<le> of_int p / (of_int 100 :: rat)" "of_int p / (of_int 100 :: rat) \<le> 2 ^ 53"
    using p by simp_all
  then have "int_truediv p 100 = Inr (fl (of_int p / of_int 100))"
    by (intro int_truediv_small) simp_all
  then have "target_step 0 p = Inr 1"
    by (simp add: target_step_def float_mul_int_def float_mul_def int_to_float_small
        finite_or_raise_small)
  then show ?thesis by (simp add: analog_value_def int_truediv_def)
qed

text \<open>
  C7.  The percentage 0 takes the first branch of \<open>async_set_percentage\<close>: in every
  configuration the single hub call is the analog write of 0 to the speed join, and no
  step is computed (with 0 steps the step computation raises \<open>ZeroDivisionError\<close> for a
  percentage in \<open>[1, 100]\<close>, and the percentage 0 still writes 0).  For a percentage in
  \<open>[1, 100]\<close> the value written is in \<open>[1, 65535]\<close>, in stepless mode and with any positive
  number of steps below \<open>2^1023\<close>.  From \<open>2^1023\<close> steps on the conversion of the step count
  to a float can overflow; then \<open>async_set_percentage\<close> raises \<open>OverflowError\<close> and writes
  nothing, so it writes no 0 either.
\<close>

theorem encoder_zero_handling:
  "async_set_percentage cfg h 0 = Inr (set_analog h (speed_join cfg) 0) \<and>
   written (set_analog h (speed_join cfg) 0) = written h @ [Set_analog (speed_join cfg) 0] \<and>
   (1 \<le> p \<and> p \<le> 100 \<longrightarrow>
      (speed_steps cfg = None \<or> (speed_steps cfg = Some s \<and> 1 \<le> s \<and> s < 2 ^ 1023) \<longrightarrow>
         (\<exists>v. 1 \<le> v \<and> v \<le> 65535 \<and>
              async_set_percentage cfg h p = Inr (set_analog h (speed_join cfg) v))) \<and>
      (speed_steps cfg = Some s \<and> 2 ^ 1023 \<le> s \<longrightarrow>
         (\<exists>v. 1 \<le> v \<and> v \<le> 65535 \<and>
              async_set_percentage cfg h p = Inr (set_analog h (speed_join cfg) v)) \<or>
         async_set_percentage cfg h p = Inl OverflowError))"
proof (intro conjI impI)
  show "async_set_percentage cfg h 0 = Inr (set_analog h (speed_join cfg) 0)"
    by (simp add: async_set_percentage_def async_turn_off_def)
  show "written (set_analog h (speed_join cfg) 0) = written h @ [Set_analog (speed_join cfg) 0]"
    by (simp add: set_analog_def)
  assume p: "1 \<le> p \<and> p \<le> 100"
  then have p1: "1 \<le> p" "p \<le> 100" and p0: "p \<noteq> 0" by simp_all
  {
    assume "speed_steps cfg = None \<or> (speed_steps cfg = Some s \<and> 1 \<le> s \<and> s < 2 ^ 1023)"
    then show "\<exists>v. 1 \<le> v \<and> v \<le> 65535 \<and>
              async_set_percentage cfg h p = Inr (set_analog h (speed_join cfg) v)"
    proof
      assume n: "speed_steps cfg = None"
      have "analog_value None p = Inr ((p * 65535) div 100)"
        using p1 by (rule analog_value_stepless_exact)
      then have "async_set_percentage cfg h p =
          Inr (set_analog h (speed_join cfg) ((p * 65535) div 100))"
        using p0 n by (simp add: async_set_percentage_nonzero)
      moreover have "1 \<le> (p * 65535) div 100" "(p * 65535) div 100 \<le> 65535"
        using p1 by linarith+
      ultimately show ?thesis by blast
    next
      assume a: "speed_steps cfg = Some s \<and> 1 \<le> s \<and> s < 2 ^ 1023"
      then have "1 \<le> s" by simp
      with p1 have "(\<exists>v. 1 \<le> v \<and> v \<le> 65535 \<and> analog_value (Some s) p = Inr v) \<or>
         (analog_value (Some s) p = Inl OverflowError \<and> 2 ^ 1023 \<le> s)"
        by (rule analog_value_stepped_nonzero)
      with a obtain v where "1 \<le> v" "v \<le> 65535" "analog_value (Some s) p = Inr v" by auto
      with a p0 show ?thesis by (auto simp: async_set_percentage_nonzero)
    qed
  }
  assume a: "speed_steps cfg = Some s \<and> 2 ^ 1023 \<le> s"
  have "(1::int) \<le> 2 ^ 1023" by (rule one_le_power) simp
  with a have "1 \<le> s" by linarith
  with p1 have "(\<exists>v. 1 \<le> v \<and> v \<le> 65535 \<and> analog_value (Some s) p = Inr v) \<or>
         (analog_value (Some s) p = Inl OverflowError \<and> 2 ^ 1023 \<le> s)"
    by (rule analog_value_stepped_nonzero)
  then show "(\<exists>v. 1 \<le> v \<and> v \<le> 65535 \<and>
              async_set_percentage cfg h p = Inr (set_analog h (speed_join cfg) v)) \<or>
         async_set_percentage cfg h p = Inl OverflowError"
  proof
    assume "\<exists>v. 1 \<le> v \<and> v \<le> 65535 \<and> analog_value (Some s) p = Inr v"
    then obtain v where "1 \<le> v" "v \<le> 65535" "analog_value (Some s) p = Inr v" by blast
    with a p0 show ?thesis by (auto simp: async_set_percentage_nonzero)
  next
    assume "analog_value (Some s) p = Inl OverflowError \<and> 2 ^ 1023 \<le> s"
    with a p0 show ?thesis by (simp add: async_set_percentage_def)
  qed
qed

theorem encoder_zero_handling_witness:
  "async_set_percentage
     \<lparr>conf_name = ''fan'', speed_join = 1, speed_steps = Some 4, reverse_join = None\<rparr>
     \<lparr>analog = (\<lambda>_. 7), digital = (\<lambda>_. False), available = True, written = []\<rparr> 0 =
   Inr (set_analog
     \<lparr>analog = (\<lambda>_. 7), digital = (\<lambda>_. False), available = True, written = []\<rparr> 1 0) \<and>
   (\<exists>v. 1 \<le> v \<and> v \<le> 65535 \<and>
      async_set_percentage
        \<lparr>conf_name = ''fan'', speed_join = 1, speed_steps = Some 4, reverse_join = None\<rparr>
        \<lparr>analog = (\<lambda>_. 7), digital = (\<lambda>_. False), available = True, written = []\<rparr> 1 =
      Inr (set_analog
        \<lparr>analog = (\<lambda>_. 7), digital = (\<lambda>_. False), available = True, written = []\<rparr> 1 v)) \<and>
   (\<exists>v. 1 \<le> v \<and> v \<le> 65535 \<and>
      async_set_percentage
        \<lparr>conf_name = ''fan'', speed_join = 1, speed_steps = None, reverse_join = None\<rparr>
        \<lparr>analog = (\<lambda>_. 7), digital = (\<lambda>_. False), available = True, written = []\<rparr> 1 =
      Inr (set_analog
        \<lparr>analog = (\<lambda>_. 7), digital = (\<lambda>_. False), available = True, written = []\<rparr> 1 v))"
proof -
  have "(4::int) < 2 ^ 1023"
  proof -
    have "(2::int) ^ 2 < 2 ^ 1023" by (rule power_strict_increasing) simp_all
    then show ?thesis by simp
  qed
  then show ?thesis
    using
      encoder_zero_handling
        [of "\<lparr>conf_name = ''fan'', speed_join = 1, speed_steps = Some 4, reverse_join = None\<rparr>"
            "\<lparr>analog = (\<lambda>_. 7), digital = (\<lambda>_. False), available = True, written = []\<rparr>" 1 4]
      encoder_zero_handling
        [of "\<lparr>conf_name = ''fan'', speed_join = 1, speed_steps = None, reverse_join = None\<rparr>"
            "\<lparr>analog = (\<lambda>_. 7), digital = (\<lambda>_. False), available = True, written = []\<rparr>" 1 4]
    by simp
qed

end
